theory Spec2Isabelle
  imports Complex_Main
begin

section \<open>JavaScript numbers\<close>

text \<open>
  The program computes with JavaScript numbers.  They are modelled as the real numbers
  extended by the three non-finite values of the language: \<open>Infinity\<close>, \<open>-Infinity\<close> and
  \<open>NaN\<close>.  The operators \<open>+\<close>, \<open>-\<close>, \<open>*\<close> and \<open>/\<close> of this section return the exact real
  result; the sign of zero is not modelled, and a zero divisor counts as \<open>+0\<close> (every
  divisor of this program that can be zero is a difference or product of non-negative
  integers).

  The program is embedded twice.  The first embedding uses the exact operators and serves
  the properties that do not depend on the rounding of IEEE doubles.  The second one
  (its names end in \<open>_fl\<close>) rounds the result of every arithmetic operation to the nearest
  double and serves the properties that rounding decides.
\<close>

datatype jsnum = Fin real | PInf | NInf | NaN

fun isFinite :: "jsnum \<Rightarrow> bool" where
  "isFinite (Fin a) = True"
| "isFinite _ = False"

fun js_add :: "jsnum \<Rightarrow> jsnum \<Rightarrow> jsnum" where
  "js_add NaN _ = NaN"
| "js_add _ NaN = NaN"
| "js_add (Fin a) (Fin b) = Fin (a + b)"
| "js_add PInf NInf = NaN"
| "js_add NInf PInf = NaN"
| "js_add PInf _ = PInf"
| "js_add _ PInf = PInf"
| "js_add NInf _ = NInf"
| "js_add _ NInf = NInf"

fun js_neg :: "jsnum \<Rightarrow> jsnum" where
  "js_neg (Fin a) = Fin (- a)"
| "js_neg PInf = NInf"
| "js_neg NInf = PInf"
| "js_neg NaN = NaN"

text \<open>The sign of a product or quotient with an infinite operand; zero counts as \<open>+0\<close>.\<close>

definition signed_inf :: "bool \<Rightarrow> jsnum" where
  "signed_inf positive = (if positive then PInf else NInf)"

fun js_mul :: "jsnum \<Rightarrow> jsnum \<Rightarrow> jsnum" where
  "js_mul NaN _ = NaN"
| "js_mul _ NaN = NaN"
| "js_mul (Fin a) (Fin b) = Fin (a * b)"
| "js_mul (Fin a) PInf = (if a = 0 then NaN else signed_inf (0 < a))"
| "js_mul (Fin a) NInf = (if a = 0 then NaN else signed_inf (a < 0))"
| "js_mul PInf (Fin b) = (if b = 0 then NaN else signed_inf (0 < b))"
| "js_mul NInf (Fin b) = (if b = 0 then NaN else signed_inf (b < 0))"
| "js_mul PInf PInf = PInf"
| "js_mul NInf NInf = PInf"
| "js_mul PInf NInf = NInf"
| "js_mul NInf PInf = NInf"

fun js_div :: "jsnum \<Rightarrow> jsnum \<Rightarrow> jsnum" where
  "js_div NaN _ = NaN"
| "js_div _ NaN = NaN"
| "js_div (Fin a) (Fin b) =
     (if b = 0 then (if a = 0 then NaN else signed_inf (0 < a)) else Fin (a / b))"
| "js_div (Fin a) _ = Fin 0"
| "js_div PInf (Fin b) = signed_inf (0 \<le> b)"
| "js_div NInf (Fin b) = signed_inf (b < 0)"
| "js_div _ _ = NaN"

text \<open>The remainder operator \<open>%\<close> truncates the quotient toward zero.\<close>

definition trunc :: "real \<Rightarrow> int" where
  "trunc a = (if 0 \<le> a then \<lfloor>a\<rfloor> else \<lceil>a\<rceil>)"

fun js_mod :: "jsnum \<Rightarrow> jsnum \<Rightarrow> jsnum" where
  "js_mod NaN _ = NaN"
| "js_mod _ NaN = NaN"
| "js_mod (Fin a) (Fin b) = (if b = 0 then NaN else Fin (a - b * of_int (trunc (a / b))))"
| "js_mod (Fin a) _ = Fin a"
| "js_mod _ _ = NaN"

instantiation jsnum :: "{plus, minus, uminus, times, inverse, modulo}"
begin

definition plus_jsnum :: "jsnum \<Rightarrow> jsnum \<Rightarrow> jsnum" where
  "plus_jsnum a b = js_add a b"

definition uminus_jsnum :: "jsnum \<Rightarrow> jsnum" where
  "uminus_jsnum a = js_neg a"

definition minus_jsnum :: "jsnum \<Rightarrow> jsnum \<Rightarrow> jsnum" where
  "minus_jsnum a b = js_add a (js_neg b)"

definition times_jsnum :: "jsnum \<Rightarrow> jsnum \<Rightarrow> jsnum" where
  "times_jsnum a b = js_mul a b"

definition divide_jsnum :: "jsnum \<Rightarrow> jsnum \<Rightarrow> jsnum" where
  "divide_jsnum a b = js_div a b"

definition inverse_jsnum :: "jsnum \<Rightarrow> jsnum" where
  "inverse_jsnum a = js_div (Fin 1) a"

definition modulo_jsnum :: "jsnum \<Rightarrow> jsnum \<Rightarrow> jsnum" where
  "modulo_jsnum a b = js_mod a b"

instance ..

end

text \<open>The functions of \<open>Math\<close> that the program calls.\<close>

definition Math_PI :: jsnum where
  "Math_PI = Fin pi"

fun Math_sqrt :: "jsnum \<Rightarrow> jsnum" where
  "Math_sqrt (Fin a) = (if a < 0 then NaN else Fin (sqrt a))"
| "Math_sqrt PInf = PInf"
| "Math_sqrt _ = NaN"

fun Math_sin :: "jsnum \<Rightarrow> jsnum" where
  "Math_sin (Fin a) = Fin (sin a)"
| "Math_sin _ = NaN"

fun Math_cos :: "jsnum \<Rightarrow> jsnum" where
  "Math_cos (Fin a) = Fin (cos a)"
| "Math_cos _ = NaN"

fun Math_floor :: "jsnum \<Rightarrow> jsnum" where
  "Math_floor (Fin a) = Fin (of_int \<lfloor>a\<rfloor>)"
| "Math_floor a = a"

text \<open>\<open>Math.round\<close> rounds to the nearest integer, a half toward \<open>+Infinity\<close>.\<close>

fun Math_round :: "jsnum \<Rightarrow> jsnum" where
  "Math_round (Fin a) = Fin (of_int \<lfloor>a + 1 / 2\<rfloor>)"
| "Math_round a = a"

fun Math_min :: "jsnum \<Rightarrow> jsnum \<Rightarrow> jsnum" where
  "Math_min NaN _ = NaN"
| "Math_min _ NaN = NaN"
| "Math_min NInf _ = NInf"
| "Math_min _ NInf = NInf"
| "Math_min PInf b = b"
| "Math_min a PInf = a"
| "Math_min (Fin a) (Fin b) = Fin (min a b)"

section \<open>The program\<close>

subsection \<open>Layouts\<close>

datatype Layout = PHYLLOTAXIS | GRID | WAVE | SPIRAL

definition LAYOUT_ORDER :: "Layout list" where
  "LAYOUT_ORDER = [PHYLLOTAXIS, SPIRAL, PHYLLOTAXIS, GRID, WAVE]"

definition theta :: jsnum where
  "theta = Math_PI * (Fin 3 - Math_sqrt (Fin 5))"

subsection \<open>Vectors and projection\<close>

text \<open>
  A vector is an array of numbers.  Reading an array past its end yields \<open>undefined\<close>,
  which every arithmetic operator turns into \<open>NaN\<close>; all reads of this program feed
  arithmetic, so \<open>elem\<close> returns \<open>NaN\<close> there.
\<close>

definition elem :: "jsnum list \<Rightarrow> nat \<Rightarrow> jsnum" where
  "elem v k = (if k < length v then v ! k else NaN)"

text \<open>The two properties of the browser's \<open>window\<close> object that \<open>project\<close> reads.\<close>

record window =
  innerWidth :: jsnum
  innerHeight :: jsnum

definition scale :: "jsnum \<Rightarrow> jsnum list \<Rightarrow> jsnum list" where
  "scale magnitude vector = map (\<lambda>p. p * magnitude) vector"

definition translate :: "jsnum list \<Rightarrow> jsnum list \<Rightarrow> jsnum list" where
  "translate translation vector =
     map (\<lambda>(p, i). p + elem translation i) (zip vector [0..<length vector])"

definition project :: "window \<Rightarrow> jsnum list \<Rightarrow> jsnum list" where
  "project win vector =
     (let wh = innerHeight win / Fin 2;
          ww = innerWidth win / Fin 2
      in translate [ww, wh] (scale (Math_min wh ww) vector))"

subsection \<open>Layout generators\<close>

definition genPhyllotaxis :: "jsnum \<Rightarrow> jsnum \<Rightarrow> jsnum list" where
  "genPhyllotaxis n i =
     (let r = Math_sqrt (i / n);
          th = i * theta
      in [r * Math_cos th, r * Math_sin th])"

text \<open>The constant \<open>rowLength\<close> of \<open>genGrid\<close>.\<close>

definition genGrid_rowLength :: "jsnum \<Rightarrow> jsnum" where
  "genGrid_rowLength n = Math_round (Math_sqrt n)"

definition genGrid :: "jsnum \<Rightarrow> jsnum \<Rightarrow> jsnum list" where
  "genGrid n i =
     (let rowLength = genGrid_rowLength n
      in [Fin (- 0.8) + Fin 1.6 / rowLength * (i mod rowLength),
          Fin (- 0.8) + Fin 1.6 / rowLength * Math_floor (i / rowLength)])"

text \<open>The constant \<open>xScale\<close> of \<open>genWave\<close>.\<close>

definition genWave_xScale :: "jsnum \<Rightarrow> jsnum" where
  "genWave_xScale n = Fin 2 / (n - Fin 1)"

definition genWave :: "jsnum \<Rightarrow> jsnum \<Rightarrow> jsnum list" where
  "genWave n i =
     (let xScale = genWave_xScale n;
          xw = Fin (- 1) + i * xScale
      in [xw, Math_sin (xw * Math_PI * Fin 3) * Fin 0.3])"

text \<open>The constant \<open>t\<close> of \<open>genSpiral\<close>.\<close>

definition genSpiral_t :: "jsnum \<Rightarrow> jsnum \<Rightarrow> jsnum" where
  "genSpiral_t n i = Math_sqrt (i / (n - Fin 1))"

definition genSpiral :: "jsnum \<Rightarrow> jsnum \<Rightarrow> jsnum list" where
  "genSpiral n i =
     (let t = genSpiral_t n i
      in [t * Math_cos (t * Math_PI * Fin 10), t * Math_sin (t * Math_PI * Fin 10)])"

subsection \<open>Points\<close>

text \<open>
  A point is an object with the eight anchor properties that \<open>findAnchors\<close> returns, the
  live position \<open>x\<close>, \<open>y\<close> and the colour.
\<close>

record Anchors =
  gx :: jsnum
  gy :: jsnum
  wx :: jsnum
  wy :: jsnum
  sx :: jsnum
  sy :: jsnum
  px :: jsnum
  py :: jsnum

record Point = Anchors +
  x :: jsnum
  y :: jsnum
  color :: string

fun xForLayout :: "Layout \<Rightarrow> string" where
  "xForLayout PHYLLOTAXIS = ''px''"
| "xForLayout GRID = ''gx''"
| "xForLayout WAVE = ''wx''"
| "xForLayout SPIRAL = ''sx''"

fun yForLayout :: "Layout \<Rightarrow> string" where
  "yForLayout PHYLLOTAXIS = ''py''"
| "yForLayout GRID = ''gy''"
| "yForLayout WAVE = ''wy''"
| "yForLayout SPIRAL = ''sy''"

text \<open>
  The property read \<open>obj[name]\<close> of \<open>lerp\<close>.  \<open>lerp\<close> does arithmetic on what it reads, and
  it is only called with the names that \<open>xForLayout\<close> and \<open>yForLayout\<close> return; any other
  name is given the value \<open>NaN\<close>.
\<close>

definition getProp :: "Point \<Rightarrow> string \<Rightarrow> jsnum" where
  "getProp obj name =
     (if name = ''gx'' then gx obj else if name = ''gy'' then gy obj
      else if name = ''wx'' then wx obj else if name = ''wy'' then wy obj
      else if name = ''sx'' then sx obj else if name = ''sy'' then sy obj
      else if name = ''px'' then px obj else if name = ''py'' then py obj
      else if name = ''x'' then x obj else if name = ''y'' then y obj
      else NaN)"

definition lerp :: "Point \<Rightarrow> jsnum \<Rightarrow> string \<Rightarrow> string \<Rightarrow> jsnum" where
  "lerp obj percent startProp endProp =
     (let p = getProp obj startProp
      in p + (getProp obj endProp - p) * percent)"

text \<open>
  \<open>findAnchors\<close> and \<open>makePoints\<close> are closures of \<open>Visualization\<close>: they read the point
  count \<open>props.count\<close>, here a natural number, and through \<open>project\<close> the window.  The colour
  map \<open>interpolateViridis\<close> belongs to a library and is a parameter.
\<close>

definition findAnchors :: "window \<Rightarrow> nat \<Rightarrow> nat \<Rightarrow> Anchors" where
  "findAnchors win count i =
     (let g = project win (genGrid (Fin (real count)) (Fin (real i)));
          w = project win (genWave (Fin (real count)) (Fin (real i)));
          s = project win (genSpiral (Fin (real count)) (Fin (real i)));
          p = project win (genPhyllotaxis (Fin (real count)) (Fin (real i)))
      in \<lparr>gx = elem g 0, gy = elem g 1, wx = elem w 0, wy = elem w 1,
          sx = elem s 0, sy = elem s 1, px = elem p 0, py = elem p 1\<rparr>)"

text \<open>The object that the loop of \<open>makePoints\<close> pushes for the index \<open>i\<close>.\<close>

definition makePoint :: "(jsnum \<Rightarrow> string) \<Rightarrow> window \<Rightarrow> nat \<Rightarrow> nat \<Rightarrow> Point" where
  "makePoint interpolateViridis win count i =
     (let a = findAnchors win count i
      in \<lparr>gx = gx a, gy = gy a, wx = wx a, wy = wy a,
          sx = sx a, sy = sy a, px = px a, py = py a,
          x = Fin 0, y = Fin 0,
          color = interpolateViridis (Fin (real i) / Fin (real count))\<rparr>)"

function makePoints_loop ::
  "(jsnum \<Rightarrow> string) \<Rightarrow> window \<Rightarrow> nat \<Rightarrow> nat \<Rightarrow> Point list \<Rightarrow> Point list" where
  "makePoints_loop interpolateViridis win count i newPoints =
     (if i < count
      then makePoints_loop interpolateViridis win count (i + 1)
             (newPoints @ [makePoint interpolateViridis win count i])
      else newPoints)"
  by pat_completeness auto
termination
  by (relation "measure (\<lambda>(cm, win, count, i, newPoints). count - i)") auto

definition makePoints :: "(jsnum \<Rightarrow> string) \<Rightarrow> window \<Rightarrow> nat \<Rightarrow> Point list" where
  "makePoints interpolateViridis win count = makePoints_loop interpolateViridis win count 0 []"

subsection \<open>The animation\<close>

text \<open>
  The variables of \<open>Visualization\<close> that \<open>next\<close> updates.  \<open>layout\<close> and \<open>step\<close> only ever
  hold small non-negative integers and are natural numbers here.
\<close>

record vis =
  layout :: nat
  step :: nat
  points :: "Point list"

definition numSteps :: nat where
  "numSteps = 60 * 2"

text \<open>The constant \<open>pct\<close> of \<open>next\<close>, at the value that \<open>step\<close> has after its increment.\<close>

definition pct :: "nat \<Rightarrow> nat \<Rightarrow> jsnum" where
  "pct nSteps st = Math_min (Fin 1) (Fin (real st) / (Fin (real nSteps) * Fin 0.8))"

text \<open>
  The body of the \<open>forEach\<close> callback of \<open>next\<close>: the point's \<open>x\<close> is assigned first, then
  its \<open>y\<close>, each from \<open>lerp\<close> on the point as it is at that moment.
\<close>

definition movePoint :: "jsnum \<Rightarrow> string \<Rightarrow> string \<Rightarrow> string \<Rightarrow> string \<Rightarrow> Point \<Rightarrow> Point" where
  "movePoint percent pxProp nxProp pyProp nyProp pt =
     (let pt1 = pt\<lparr>x := lerp pt percent pxProp nxProp\<rparr>;
          pt2 = pt1\<lparr>y := lerp pt1 percent pyProp nyProp\<rparr>
      in pt2)"

text \<open>
  The function \<open>next\<close> of \<open>Visualization\<close>, without its last line, which asks the browser
  to call it again at the next animation frame.  The source's constants \<open>numSteps\<close> and
  \<open>LAYOUT_ORDER\<close> are the parameters \<open>nSteps\<close> and \<open>order\<close>, so that the properties below
  can be stated for every positive step budget and every non-empty cycle.  For
  \<open>nSteps = 0\<close> or an empty \<open>order\<close> the source's \<open>%\<close> would yield \<open>NaN\<close>, which a
  natural number cannot hold: the properties below assume neither.  The two reads of
  \<open>order\<close> are in range as long as \<open>layout\<close> is below the length of a non-empty \<open>order\<close>,
  which holds at the start and which every tick preserves.
\<close>

definition next_tick :: "nat \<Rightarrow> Layout list \<Rightarrow> vis \<Rightarrow> vis" where
  "next_tick nSteps order s =
     (let step1 = (step s + 1) mod nSteps;
          layout1 = (if step1 = 0 then (layout s + 1) mod length order else layout s);
          percent = pct nSteps step1;
          currentLayout = order ! layout1;
          nextLayout = order ! ((layout1 + 1) mod length order);
          pxProp = xForLayout currentLayout;
          nxProp = xForLayout nextLayout;
          pyProp = yForLayout currentLayout;
          nyProp = yForLayout nextLayout
      in \<lparr>layout = layout1, step = step1,
          points = map (movePoint percent pxProp nxProp pyProp nyProp) (points s)\<rparr>)"

text \<open>The variables of \<open>Visualization\<close> when it first calls \<open>next\<close>.\<close>

definition initial :: "(jsnum \<Rightarrow> string) \<Rightarrow> window \<Rightarrow> nat \<Rightarrow> vis" where
  "initial interpolateViridis win count =
     \<lparr>layout = 0, step = 0, points = makePoints interpolateViridis win count\<rparr>"

text \<open>The state in which \<open>Visualization\<close> returns: it has called \<open>next\<close> once.\<close>

definition Visualization :: "(jsnum \<Rightarrow> string) \<Rightarrow> window \<Rightarrow> nat \<Rightarrow> vis" where
  "Visualization interpolateViridis win count =
     next_tick numSteps LAYOUT_ORDER (initial interpolateViridis win count)"

text \<open>
  Every animation frame calls \<open>next\<close> again.  The browser passes the frame's time stamp to
  the callback, which takes no argument.  \<open>frames\<close> is the state after the frames with the
  time stamps \<open>ts\<close>, and \<open>trace\<close> lists the live positions of all points after each of them.
\<close>

fun frames :: "nat \<Rightarrow> Layout list \<Rightarrow> real list \<Rightarrow> vis \<Rightarrow> vis" where
  "frames nSteps order [] s = s"
| "frames nSteps order (t # ts) s = frames nSteps order ts (next_tick nSteps order s)"

definition live :: "Point \<Rightarrow> jsnum \<times> jsnum" where
  "live pt = (x pt, y pt)"

fun trace :: "nat \<Rightarrow> Layout list \<Rightarrow> real list \<Rightarrow> vis \<Rightarrow> (jsnum \<times> jsnum) list list" where
  "trace nSteps order [] s = []"
| "trace nSteps order (t # ts) s =
     (let s1 = next_tick nSteps order s
      in map live (points s1) # trace nSteps order ts s1)"

section \<open>Notions used to state the properties\<close>

text \<open>The interpolation \<open>lerp(a, b, t) = a + (b - a) * t\<close> on numbers.\<close>

definition spec_lerp :: "jsnum \<Rightarrow> jsnum \<Rightarrow> jsnum \<Rightarrow> jsnum" where
  "spec_lerp a b t = a + (b - a) * t"

text \<open>
  The anchor of a point in a layout: the pair of properties in which \<open>findAnchors\<close> stores
  the projected coordinate of that layout's generator.
\<close>

fun anchor :: "Layout \<Rightarrow> Point \<Rightarrow> jsnum \<times> jsnum" where
  "anchor PHYLLOTAXIS pt = (px pt, py pt)"
| "anchor GRID pt = (gx pt, gy pt)"
| "anchor WAVE pt = (wx pt, wy pt)"
| "anchor SPIRAL pt = (sx pt, sy pt)"

text \<open>A point whose live position is the blend of two of its anchors.\<close>

definition blend_point :: "Layout \<Rightarrow> Layout \<Rightarrow> jsnum \<Rightarrow> Point \<Rightarrow> Point" where
  "blend_point cur nxt b pt =
     pt\<lparr>x := spec_lerp (fst (anchor cur pt)) (fst (anchor nxt pt)) b,
        y := spec_lerp (snd (anchor cur pt)) (snd (anchor nxt pt)) b\<rparr>"

text \<open>A point without its live position: two points that agree on it differ at most there.\<close>

definition forget_live :: "Point \<Rightarrow> Point" where
  "forget_live pt = pt\<lparr>x := Fin 0, y := Fin 0\<rparr>"

text \<open>The coordinates along axis \<open>k\<close> that \<open>genGrid\<close> gives the \<open>n\<close> points of a set.\<close>

definition grid_axis :: "nat \<Rightarrow> nat \<Rightarrow> jsnum list" where
  "grid_axis n k = map (\<lambda>i. elem (genGrid (Fin (real n)) (Fin (real i))) k) [0..<n]"

text \<open>
  A run of the animation: the live positions of all points after the tick inside
  \<open>Visualization\<close> and after each of the animation frames with the time stamps \<open>ts\<close>.
\<close>

definition run ::
  "nat \<Rightarrow> Layout list \<Rightarrow> (jsnum \<Rightarrow> string) \<Rightarrow> window \<Rightarrow> nat \<Rightarrow> real list
   \<Rightarrow> (jsnum \<times> jsnum) list list" where
  "run nSteps order interpolateViridis win count ts =
     (let s1 = next_tick nSteps order (initial interpolateViridis win count)
      in map live (points s1) # trace nSteps order ts s1)"

text \<open>A point without its colour.\<close>

definition uncolor :: "Point \<Rightarrow> Point" where
  "uncolor pt = pt\<lparr>color := []\<rparr>"

text \<open>A point whose eight anchor properties are finite numbers.\<close>

definition finite_anchors :: "Point \<Rightarrow> bool" where
  "finite_anchors pt =
     (isFinite (gx pt) \<and> isFinite (gy pt) \<and> isFinite (wx pt) \<and> isFinite (wy pt)
      \<and> isFinite (sx pt) \<and> isFinite (sy pt) \<and> isFinite (px pt) \<and> isFinite (py pt))"

section \<open>Double arithmetic\<close>

text \<open>
  The integer nearest to a real number, a tie going to the even one, and the double
  nearest to a real number: a multiple of the unit in the last place of its binade, with
  a significand of 53 bits.  The range of the exponent is not bounded: no value of this
  program comes near the largest or the smallest double.
\<close>

definition round_even :: "real \<Rightarrow> int" where
  "round_even a =
     (let f = \<lfloor>a\<rfloor>; d = a - of_int f
      in if d < 1 / 2 then f else if 1 / 2 < d then f + 1 else if even f then f else f + 1)"

definition rd :: "real \<Rightarrow> real" where
  "rd a =
     (if a = 0 then 0
      else (let e = \<lfloor>log 2 \<bar>a\<bar>\<rfloor> - 52
            in of_int (round_even (a / 2 powr of_int e)) * 2 powr of_int e))"

text \<open>
  The rounded operations on numbers.  \<open>fl c\<close> is the value of the decimal literal \<open>c\<close> of the
  source.  \<open>%\<close>, \<open>Math.round\<close>, \<open>Math.floor\<close> and \<open>Math.min\<close> are exact on doubles and
  are the functions of the first section.  \<open>Math.sqrt\<close>, \<open>Math.sin\<close> and \<open>Math.cos\<close> are
  taken to round correctly; the properties below use the last two only through the
  finiteness of their results.
\<close>

fun rnd :: "jsnum \<Rightarrow> jsnum" where
  "rnd (Fin a) = Fin (rd a)"
| "rnd a = a"

definition fl :: "real \<Rightarrow> jsnum" where
  "fl c = Fin (rd c)"

definition fl_add :: "jsnum \<Rightarrow> jsnum \<Rightarrow> jsnum" where
  "fl_add a b = rnd (a + b)"

definition fl_sub :: "jsnum \<Rightarrow> jsnum \<Rightarrow> jsnum" where
  "fl_sub a b = rnd (a - b)"

definition fl_mul :: "jsnum \<Rightarrow> jsnum \<Rightarrow> jsnum" where
  "fl_mul a b = rnd (a * b)"

definition fl_div :: "jsnum \<Rightarrow> jsnum \<Rightarrow> jsnum" where
  "fl_div a b = rnd (a / b)"

definition fl_sqrt :: "jsnum \<Rightarrow> jsnum" where
  "fl_sqrt a = rnd (Math_sqrt a)"

definition fl_sin :: "jsnum \<Rightarrow> jsnum" where
  "fl_sin a = rnd (Math_sin a)"

definition fl_cos :: "jsnum \<Rightarrow> jsnum" where
  "fl_cos a = rnd (Math_cos a)"

subsection \<open>The program in double arithmetic\<close>

text \<open>
  Each definition repeats the definition of the same name without \<open>_fl\<close>, with the
  rounded operations in place of the exact ones; \<open>Math.PI\<close> is \<open>fl pi\<close>.
\<close>

definition theta_fl :: jsnum where
  "theta_fl = fl_mul (fl pi) (fl_sub (Fin 3) (fl_sqrt (Fin 5)))"

definition genPhyllotaxis_fl :: "jsnum \<Rightarrow> jsnum \<Rightarrow> jsnum list" where
  "genPhyllotaxis_fl n i =
     (let r = fl_sqrt (fl_div i n);
          th = fl_mul i theta_fl
      in [fl_mul r (fl_cos th), fl_mul r (fl_sin th)])"

definition genGrid_fl :: "jsnum \<Rightarrow> jsnum \<Rightarrow> jsnum list" where
  "genGrid_fl n i =
     (let rowLength = Math_round (fl_sqrt n)
      in [fl_add (- fl 0.8) (fl_mul (fl_div (fl 1.6) rowLength) (i mod rowLength)),
          fl_add (- fl 0.8) (fl_mul (fl_div (fl 1.6) rowLength) (Math_floor (fl_div i rowLength)))])"

definition genWave_fl :: "jsnum \<Rightarrow> jsnum \<Rightarrow> jsnum list" where
  "genWave_fl n i =
     (let xScale = fl_div (Fin 2) (fl_sub n (Fin 1));
          xw = fl_add (- Fin 1) (fl_mul i xScale)
      in [xw, fl_mul (fl_sin (fl_mul (fl_mul xw (fl pi)) (Fin 3))) (fl 0.3)])"

definition genSpiral_fl :: "jsnum \<Rightarrow> jsnum \<Rightarrow> jsnum list" where
  "genSpiral_fl n i =
     (let t = fl_sqrt (fl_div i (fl_sub n (Fin 1)))
      in [fl_mul t (fl_cos (fl_mul (fl_mul t (fl pi)) (Fin 10))),
          fl_mul t (fl_sin (fl_mul (fl_mul t (fl pi)) (Fin 10)))])"

definition scale_fl :: "jsnum \<Rightarrow> jsnum list \<Rightarrow> jsnum list" where
  "scale_fl magnitude vector = map (\<lambda>p. fl_mul p magnitude) vector"

definition translate_fl :: "jsnum list \<Rightarrow> jsnum list \<Rightarrow> jsnum list" where
  "translate_fl translation vector =
     map (\<lambda>(p, i). fl_add p (elem translation i)) (zip vector [0..<length vector])"

definition project_fl :: "window \<Rightarrow> jsnum list \<Rightarrow> jsnum list" where
  "project_fl win vector =
     (let wh = fl_div (innerHeight win) (Fin 2);
          ww = fl_div (innerWidth win) (Fin 2)
      in translate_fl [ww, wh] (scale_fl (Math_min wh ww) vector))"

definition lerp_fl :: "Point \<Rightarrow> jsnum \<Rightarrow> string \<Rightarrow> string \<Rightarrow> jsnum" where
  "lerp_fl obj percent startProp endProp =
     (let p = getProp obj startProp
      in fl_add p (fl_mul (fl_sub (getProp obj endProp) p) percent))"

definition findAnchors_fl :: "window \<Rightarrow> nat \<Rightarrow> nat \<Rightarrow> Anchors" where
  "findAnchors_fl win count i =
     (let g = project_fl win (genGrid_fl (Fin (real count)) (Fin (real i)));
          w = project_fl win (genWave_fl (Fin (real count)) (Fin (real i)));
          s = project_fl win (genSpiral_fl (Fin (real count)) (Fin (real i)));
          p = project_fl win (genPhyllotaxis_fl (Fin (real count)) (Fin (real i)))
      in \<lparr>gx = elem g 0, gy = elem g 1, wx = elem w 0, wy = elem w 1,
          sx = elem s 0, sy = elem s 1, px = elem p 0, py = elem p 1\<rparr>)"

definition makePoint_fl :: "(jsnum \<Rightarrow> string) \<Rightarrow> window \<Rightarrow> nat \<Rightarrow> nat \<Rightarrow> Point" where
  "makePoint_fl interpolateViridis win count i =
     (let a = findAnchors_fl win count i
      in \<lparr>gx = gx a, gy = gy a, wx = wx a, wy = wy a,
          sx = sx a, sy = sy a, px = px a, py = py a,
          x = Fin 0, y = Fin 0,
          color = interpolateViridis (fl_div (Fin (real i)) (Fin (real count)))\<rparr>)"

function makePoints_loop_fl ::
  "(jsnum \<Rightarrow> string) \<Rightarrow> window \<Rightarrow> nat \<Rightarrow> nat \<Rightarrow> Point list \<Rightarrow> Point list" where
  "makePoints_loop_fl interpolateViridis win count i newPoints =
     (if i < count
      then makePoints_loop_fl interpolateViridis win count (i + 1)
             (newPoints @ [makePoint_fl interpolateViridis win count i])
      else newPoints)"
  by pat_completeness auto
termination
  by (relation "measure (\<lambda>(cm, win, count, i, newPoints). count - i)") auto

definition makePoints_fl :: "(jsnum \<Rightarrow> string) \<Rightarrow> window \<Rightarrow> nat \<Rightarrow> Point list" where
  "makePoints_fl interpolateViridis win count =
     makePoints_loop_fl interpolateViridis win count 0 []"

definition pct_fl :: "nat \<Rightarrow> nat \<Rightarrow> jsnum" where
  "pct_fl nSteps st =
     Math_min (Fin 1) (fl_div (Fin (real st)) (fl_mul (Fin (real nSteps)) (fl 0.8)))"

definition movePoint_fl ::
  "jsnum \<Rightarrow> string \<Rightarrow> string \<Rightarrow> string \<Rightarrow> string \<Rightarrow> Point \<Rightarrow> Point" where
  "movePoint_fl percent pxProp nxProp pyProp nyProp pt =
     (let pt1 = pt\<lparr>x := lerp_fl pt percent pxProp nxProp\<rparr>;
          pt2 = pt1\<lparr>y := lerp_fl pt1 percent pyProp nyProp\<rparr>
      in pt2)"

definition next_tick_fl :: "nat \<Rightarrow> Layout list \<Rightarrow> vis \<Rightarrow> vis" where
  "next_tick_fl nSteps order s =
     (let step1 = (step s + 1) mod nSteps;
          layout1 = (if step1 = 0 then (layout s + 1) mod length order else layout s);
          percent = pct_fl nSteps step1;
          currentLayout = order ! layout1;
          nextLayout = order ! ((layout1 + 1) mod length order);
          pxProp = xForLayout currentLayout;
          nxProp = xForLayout nextLayout;
          pyProp = yForLayout currentLayout;
          nyProp = yForLayout nextLayout
      in \<lparr>layout = layout1, step = step1,
          points = map (movePoint_fl percent pxProp nxProp pyProp nyProp) (points s)\<rparr>)"

definition initial_fl :: "(jsnum \<Rightarrow> string) \<Rightarrow> window \<Rightarrow> nat \<Rightarrow> vis" where
  "initial_fl interpolateViridis win count =
     \<lparr>layout = 0, step = 0, points = makePoints_fl interpolateViridis win count\<rparr>"

definition Visualization_fl :: "(jsnum \<Rightarrow> string) \<Rightarrow> window \<Rightarrow> nat \<Rightarrow> vis" where
  "Visualization_fl interpolateViridis win count =
     next_tick_fl numSteps LAYOUT_ORDER (initial_fl interpolateViridis win count)"

fun frames_fl :: "nat \<Rightarrow> Layout list \<Rightarrow> real list \<Rightarrow> vis \<Rightarrow> vis" where
  "frames_fl nSteps order [] s = s"
| "frames_fl nSteps order (t # ts) s = frames_fl nSteps order ts (next_tick_fl nSteps order s)"

text \<open>The interpolation of \<open>lerp_fl\<close> on numbers, and a point blended by it.\<close>

definition lerp_num_fl :: "jsnum \<Rightarrow> jsnum \<Rightarrow> jsnum \<Rightarrow> jsnum" where
  "lerp_num_fl a b t = fl_add a (fl_mul (fl_sub b a) t)"

definition blend_point_fl :: "Layout \<Rightarrow> Layout \<Rightarrow> jsnum \<Rightarrow> Point \<Rightarrow> Point" where
  "blend_point_fl cur nxt b pt =
     pt\<lparr>x := lerp_num_fl (fst (anchor cur pt)) (fst (anchor nxt pt)) b,
        y := lerp_num_fl (snd (anchor cur pt)) (snd (anchor nxt pt)) b\<rparr>"

text \<open>A finite double, and a point whose eight anchor properties are finite doubles.\<close>

fun is_double :: "jsnum \<Rightarrow> bool" where
  "is_double (Fin a) = (rd a = a)"
| "is_double _ = False"

definition double_anchors :: "Point \<Rightarrow> bool" where
  "double_anchors pt =
     (is_double (gx pt) \<and> is_double (gy pt) \<and> is_double (wx pt) \<and> is_double (wy pt)
      \<and> is_double (sx pt) \<and> is_double (sy pt) \<and> is_double (px pt) \<and> is_double (py pt))"

text \<open>
  \<open>within_rounding a b v\<close>: the number \<open>v\<close> differs from the number \<open>b\<close> by at most
  \<open>(|a| + |b|) / 2 ^ 51\<close>.  \<open>near_anchor cur nxt pt\<close>: both coordinates of the live position
  of \<open>pt\<close> are within that distance of its anchor in \<open>nxt\<close>, \<open>a\<close> being its anchor in \<open>cur\<close>.
\<close>

fun within_rounding :: "jsnum \<Rightarrow> jsnum \<Rightarrow> jsnum \<Rightarrow> bool" where
  "within_rounding (Fin a) (Fin b) (Fin v) = (\<bar>v - b\<bar> \<le> (\<bar>a\<bar> + \<bar>b\<bar>) / 2 ^ 51)"
| "within_rounding _ _ _ = False"

definition near_anchor :: "Layout \<Rightarrow> Layout \<Rightarrow> Point \<Rightarrow> bool" where
  "near_anchor cur nxt pt =
     (within_rounding (fst (anchor cur pt)) (fst (anchor nxt pt)) (x pt)
      \<and> within_rounding (snd (anchor cur pt)) (snd (anchor nxt pt)) (y pt))"

section \<open>Arithmetic on finite numbers\<close>

lemma fin_add [simp]: "Fin a + Fin b = Fin (a + b)"
  by (simp add: plus_jsnum_def)

lemma fin_sub [simp]: "Fin a - Fin b = Fin (a - b)"
  by (simp add: minus_jsnum_def)

lemma fin_mul [simp]: "Fin a * Fin b = Fin (a * b)"
  by (simp add: times_jsnum_def)

lemma fin_div [simp]: "b \<noteq> 0 \<Longrightarrow> Fin a / Fin b = Fin (a / b)"
  by (simp add: divide_jsnum_def)

lemma fin_mod: "b \<noteq> 0 \<Longrightarrow> Fin a mod Fin b = Fin (a - b * of_int (trunc (a / b)))"
  by (simp add: modulo_jsnum_def)

text \<open>On natural numbers \<open>%\<close> is the remainder of the integer division.\<close>

lemma fin_mod_nat: "0 < r \<Longrightarrow> Fin (real i) mod Fin (real r) = Fin (real (i mod r))"
proof -
  assume r: "0 < r"
  have "\<lfloor>real i / real r\<rfloor> = int (i div r)"
    by (simp add: floor_divide_of_nat_eq)
  moreover have "real i - real r * real (i div r) = real (i mod r)"
    by (metis add_diff_cancel_left' mult_div_mod_eq of_nat_add of_nat_mult)
  ultimately show ?thesis using r
    by (simp add: fin_mod trunc_def)
qed

section \<open>Projection\<close>

text \<open>
  Claim C6.  For every viewport of finite width \<open>w\<close> and height \<open>h\<close> (in particular for every
  \<open>w, h > 0\<close>), projecting the unnormalized coordinate \<open>(0, 0)\<close> yields exactly
  \<open>(w/2, h/2)\<close>, and projecting \<open>(1, 0)\<close> yields exactly \<open>(w/2 + min(w, h)/2, h/2)\<close>.
\<close>

theorem project_origin_and_unit:
  "project \<lparr>innerWidth = Fin w, innerHeight = Fin h\<rparr> [Fin 0, Fin 0] = [Fin (w / 2), Fin (h / 2)]
   \<and> project \<lparr>innerWidth = Fin w, innerHeight = Fin h\<rparr> [Fin 1, Fin 0]
       = [Fin (w / 2 + min w h / 2), Fin (h / 2)]"
proof -
  have m: "min (h / 2) (w / 2) = min w h / 2"
    by (simp add: min_def)
  show ?thesis
    by (simp add: project_def translate_def scale_def elem_def m upt_rec [of 0] upt_rec [of 1])
qed

section \<open>The blend fraction\<close>

lemma pct_fin: "0 < N \<Longrightarrow> pct N st = Fin (min 1 (real st / (real N * 0.8)))"
  by (simp add: pct_def)

text \<open>
  Claim C2.  For every value \<open>st\<close> of the step index in \<open>0 .. N - 1\<close>, where \<open>N\<close> is the
  number of steps per transition, the blend fraction is a number \<open>b\<close> with
  \<open>0 \<le> b \<le> 1\<close>, and \<open>b = 1\<close> whenever \<open>st \<ge> 0.8 * N\<close>.
\<close>

theorem pct_bounds:
  "st < N \<Longrightarrow> \<exists>b. pct N st = Fin b \<and> 0 \<le> b \<and> b \<le> 1 \<and> (0.8 * real N \<le> real st \<longrightarrow> b = 1)"
proof -
  assume lt: "st < N"
  then have N: "0 < N" by simp
  define q where "q = real st / (real N * 0.8)"
  have q0: "0 \<le> q" by (simp add: q_def)
  have q1: "1 \<le> q" if "0.8 * real N \<le> real st"
    using N that by (simp add: q_def field_simps)
  have "pct N st = Fin (min 1 q)"
    by (simp add: pct_fin [OF N] q_def)
  moreover have "0 \<le> min 1 q" "min 1 q \<le> 1"
    using q0 by simp_all
  moreover have "0.8 * real N \<le> real st \<longrightarrow> min 1 q = 1"
    using q1 by (simp add: min_def)
  ultimately show ?thesis by blast
qed

theorem pct_bounds_witness:
  "\<exists>b. pct numSteps 96 = Fin b \<and> 0 \<le> b \<and> b \<le> 1 \<and> b = 1"
  using pct_bounds [of 96 numSteps] by (simp add: numSteps_def)

section \<open>The grid\<close>

lemma sqrt_9: "sqrt 9 = 3"
proof -
  have "sqrt (3\<^sup>2) = 3" by (simp only: real_sqrt_abs abs_numeral)
  then show ?thesis by simp
qed

lemma rowLength_9: "genGrid_rowLength (Fin 9) = Fin 3"
  by (simp add: genGrid_rowLength_def sqrt_9)

text \<open>
  Claim C4, as the code has it.  For \<open>count = 9\<close> the grid generator uses
  \<open>rowLength = round(sqrt(9)) = 3\<close>, and the nine unnormalized coordinates form a 3 by 3
  lattice with step \<open>1.6/3 = 8/15 = 0.5333...\<close> that starts at \<open>-0.8\<close> in both axes: each
  axis takes exactly the values \<open>-4/5\<close>, \<open>-4/15\<close> and \<open>4/15\<close>, so the lattice spans
  \<open>[-0.8, 0.2666...]\<close>.
\<close>

theorem grid9_lattice:
  "genGrid_rowLength (Fin 9) = Fin 3
   \<and> map (\<lambda>i. genGrid (Fin 9) (Fin (real i))) [0..<9]
     = [[Fin (- 4 / 5), Fin (- 4 / 5)], [Fin (- 4 / 15), Fin (- 4 / 5)], [Fin (4 / 15), Fin (- 4 / 5)],
        [Fin (- 4 / 5), Fin (- 4 / 15)], [Fin (- 4 / 15), Fin (- 4 / 15)], [Fin (4 / 15), Fin (- 4 / 15)],
        [Fin (- 4 / 5), Fin (4 / 15)], [Fin (- 4 / 15), Fin (4 / 15)], [Fin (4 / 15), Fin (4 / 15)]]"
  by (simp add: upt_rec genGrid_def rowLength_9 fin_mod trunc_def)

text \<open>
  The claim as the specification states it has the lattice span exactly \<open>[-0.8, 0.8]\<close>.
  None of the nine points has the coordinate \<open>0.8\<close>, in either axis.
\<close>

theorem grid9_upper_end_not_reached:
  "Fin 0.8 \<notin> set (grid_axis 9 0) \<and> Fin 0.8 \<notin> set (grid_axis 9 1)"
  by (simp add: grid_axis_def upt_rec genGrid_def rowLength_9 fin_mod trunc_def elem_def)

text \<open>
  For a count \<open>n \<ge> 1\<close> the row length is a natural number \<open>r \<ge> 1\<close> with
  \<open>n \<le> r * r + r\<close>: rounding \<open>sqrt n\<close> to \<open>r\<close> means \<open>sqrt n < r + 1/2\<close>.
\<close>

lemma round_sqrt_bounds:
  assumes "1 \<le> n"
  shows "\<exists>r. genGrid_rowLength (Fin (real n)) = Fin (real r) \<and> 1 \<le> r \<and> n \<le> r * r + r"
proof -
  define k where "k = \<lfloor>sqrt (real n) + 1 / 2\<rfloor>"
  have s1: "1 \<le> sqrt (real n)" using assms by simp
  then have "1 \<le> k" unfolding k_def by linarith
  define r where "r = nat k"
  have kr: "k = int r" using \<open>1 \<le> k\<close> by (simp add: r_def)
  have up: "sqrt (real n) + 1 / 2 < real_of_int k + 1" unfolding k_def by linarith
  then have "sqrt (real n) < real r + 1 / 2" by (simp add: kr)
  then have "(sqrt (real n))\<^sup>2 < (real r + 1 / 2)\<^sup>2"
    using s1 by (intro power_strict_mono) simp_all
  then have "real n < real r * real r + real r + 1 / 4"
    by (simp add: power2_eq_square algebra_simps)
  then have "real n < real (r * r + r) + 1" by simp
  then have "n < r * r + r + 1" by (metis of_nat_1 of_nat_add of_nat_less_iff)
  then have "n \<le> r * r + r" by simp
  moreover have "1 \<le> r" using \<open>1 \<le> k\<close> by (simp add: r_def)
  moreover have "genGrid_rowLength (Fin (real n)) = Fin (real r)"
    by (simp add: genGrid_rowLength_def k_def [symmetric] kr)
  ultimately show ?thesis by blast
qed

lemma genGrid_nat:
  assumes "genGrid_rowLength (Fin (real n)) = Fin (real r)" "0 < r"
  shows "genGrid (Fin (real n)) (Fin (real i))
         = [Fin (- 0.8 + 1.6 / real r * real (i mod r)), Fin (- 0.8 + 1.6 / real r * real (i div r))]"
  using assms by (simp add: genGrid_def fin_mod_nat floor_divide_of_nat_eq)

text \<open>
  In exact arithmetic, for every count \<open>n \<ge> 1\<close> and every index \<open>i < n\<close>, both
  coordinates of the grid formulas are numbers in \<open>[-0.8, 0.8]\<close>; the row length
  \<open>r = round(sqrt n)\<close> satisfies \<open>floor((n - 1) / r) \<le> r\<close>.  What the rounding of
  doubles makes of this bound is settled in the section on the grid in double arithmetic.
\<close>

lemma genGrid_bounded:
  assumes "1 \<le> n" "i < n"
  shows "\<exists>r a b. genGrid_rowLength (Fin (real n)) = Fin (real r) \<and> (n - 1) div r \<le> r
           \<and> genGrid (Fin (real n)) (Fin (real i)) = [Fin a, Fin b]
           \<and> - 0.8 \<le> a \<and> a \<le> 0.8 \<and> - 0.8 \<le> b \<and> b \<le> 0.8"
proof -
  obtain r where r: "genGrid_rowLength (Fin (real n)) = Fin (real r)" "1 \<le> r" "n \<le> r * r + r"
    using round_sqrt_bounds [OF assms(1)] by blast
  have rpos: "0 < r" using r(2) by simp
  have lt: "n - 1 < (r + 1) * r" using r(3) assms(1) by (simp add: algebra_simps)
  have "(n - 1) div r < r + 1"
    by (rule less_mult_imp_div_less [OF lt])
  then have d1: "(n - 1) div r \<le> r" by simp
  have "i div r \<le> (n - 1) div r" using assms(2) by (intro div_le_mono) simp
  then have d2: "i div r \<le> r" using d1 by simp
  have m2: "i mod r \<le> r" using rpos by (simp add: less_imp_le)
  define a where "a = - 0.8 + 1.6 / real r * real (i mod r)"
  define b where "b = - 0.8 + 1.6 / real r * real (i div r)"
  have q: "\<And>k. k \<le> r \<Longrightarrow> 0 \<le> 1.6 / real r * real k \<and> 1.6 / real r * real k \<le> 1.6"
    using rpos by (simp add: field_simps)
  have "genGrid (Fin (real n)) (Fin (real i)) = [Fin a, Fin b]"
    unfolding a_def b_def by (rule genGrid_nat [OF r(1) rpos])
  moreover have "- 0.8 \<le> a \<and> a \<le> 0.8" using q [OF m2] unfolding a_def by linarith
  moreover have "- 0.8 \<le> b \<and> b \<le> 0.8" using q [OF d2] unfolding b_def by linarith
  ultimately show ?thesis using r(1) d1 by blast
qed

text \<open>
  The wave has no such bound: for every count \<open>n \<ge> 2\<close> its first point has the
  coordinate \<open>-1\<close>.
\<close>

lemma genWave_first:
  assumes "2 \<le> n"
  shows "elem (genWave (Fin (real n)) (Fin 0)) 0 = Fin (- 1)"
proof -
  have "real n - 1 \<noteq> 0" using assms by simp
  then show ?thesis
    by (simp add: genWave_def genWave_xScale_def Let_def elem_def)
qed

section \<open>The divisor of the wave and of the spiral\<close>

text \<open>
  Claim C7.  For every count \<open>n \<ge> 2\<close> the divisor \<open>n - 1\<close> of the wave and spiral
  generators is a nonzero number \<open>d\<close>, and \<open>xScale = 2/d\<close> and \<open>t = sqrt(i/d)\<close> are
  finite for every index \<open>i\<close>.  For \<open>n = 1\<close> the divisor is zero: \<open>xScale\<close> is
  \<open>Infinity\<close>, and \<open>t\<close> is \<open>NaN\<close> at index 0 and \<open>Infinity\<close> at any other index.
\<close>

theorem genWave_genSpiral_divisor:
  "(2 \<le> n \<longrightarrow>
      (\<exists>d. Fin (real n) - Fin 1 = Fin d \<and> d \<noteq> 0
          \<and> genWave_xScale (Fin (real n)) = Fin (2 / d)
          \<and> genSpiral_t (Fin (real n)) (Fin (real i)) = Fin (sqrt (real i / d))))
   \<and> Fin 1 - Fin 1 = Fin 0
   \<and> genWave_xScale (Fin 1) = PInf
   \<and> genSpiral_t (Fin 1) (Fin 0) = NaN
   \<and> (0 < i \<longrightarrow> genSpiral_t (Fin 1) (Fin (real i)) = PInf)"
proof -
  have big: "\<exists>d. Fin (real n) - Fin 1 = Fin d \<and> d \<noteq> 0
          \<and> genWave_xScale (Fin (real n)) = Fin (2 / d)
          \<and> genSpiral_t (Fin (real n)) (Fin (real i)) = Fin (sqrt (real i / d))" if "2 \<le> n"
  proof -
    have d: "real n - 1 \<noteq> 0" and q: "\<not> real i / (real n - 1) < 0"
      using that by (simp_all add: not_less)
    show ?thesis
      using d q by (intro exI [of _ "real n - 1"]) (simp add: genWave_xScale_def genSpiral_t_def)
  qed
  have one: "Fin 1 - Fin 1 = Fin 0 \<and> genWave_xScale (Fin 1) = PInf
      \<and> genSpiral_t (Fin 1) (Fin 0) = NaN
      \<and> (0 < i \<longrightarrow> genSpiral_t (Fin 1) (Fin (real i)) = PInf)"
    by (simp add: genWave_xScale_def genSpiral_t_def divide_jsnum_def signed_inf_def)
  show ?thesis using big one by blast
qed

theorem genWave_genSpiral_divisor_witness:
  "(\<exists>d. Fin 2 - Fin 1 = Fin d \<and> d \<noteq> 0
          \<and> genWave_xScale (Fin 2) = Fin (2 / d)
          \<and> genSpiral_t (Fin 2) (Fin 1) = Fin (sqrt (1 / d)))
   \<and> genSpiral_t (Fin 1) (Fin 1) = PInf"
  using genWave_genSpiral_divisor [of 2 1] by simp

section \<open>Building the points\<close>

declare makePoints_loop.simps [simp del]

lemma makePoints_loop_eq:
  "makePoints_loop cm win count i acc = acc @ map (makePoint cm win count) [i..<count]"
proof (induction cm win count i acc rule: makePoints_loop.induct)
  case (1 cm win count i acc)
  show ?case
  proof (cases "i < count")
    case True
    then show ?thesis
      using "1.IH" by (subst makePoints_loop.simps) (simp add: upt_conv_Cons)
  next
    case False
    then show ?thesis by (subst makePoints_loop.simps) simp
  qed
qed

lemma makePoints_eq: "makePoints cm win count = map (makePoint cm win count) [0..<count]"
  by (simp add: makePoints_def makePoints_loop_eq)

text \<open>
  Claim C5.  For every count, \<open>Visualization\<close> starts from the result of \<open>makePoints\<close>,
  which has exactly \<open>count\<close> points, in index order; point \<open>i\<close> carries the four anchors
  that \<open>project\<close> computes from the four layout generators at \<open>i\<close>, the colour
  \<open>interpolateViridis (i / count)\<close> and the live position \<open>(0, 0)\<close>.  The list is built
  from the empty list and is a function of the colour map, the window and the count
  alone, so it holds no point of an earlier set.
\<close>

theorem makePoints_postcondition:
  "points (initial cm win count) = makePoints cm win count
   \<and> length (makePoints cm win count) = count
   \<and> (\<forall>i<count. makePoints cm win count ! i =
        \<lparr>gx = elem (project win (genGrid (Fin (real count)) (Fin (real i)))) 0,
         gy = elem (project win (genGrid (Fin (real count)) (Fin (real i)))) 1,
         wx = elem (project win (genWave (Fin (real count)) (Fin (real i)))) 0,
         wy = elem (project win (genWave (Fin (real count)) (Fin (real i)))) 1,
         sx = elem (project win (genSpiral (Fin (real count)) (Fin (real i)))) 0,
         sy = elem (project win (genSpiral (Fin (real count)) (Fin (real i)))) 1,
         px = elem (project win (genPhyllotaxis (Fin (real count)) (Fin (real i)))) 0,
         py = elem (project win (genPhyllotaxis (Fin (real count)) (Fin (real i)))) 1,
         x = Fin 0, y = Fin 0,
         color = cm (Fin (real i) / Fin (real count))\<rparr>)"
  by (simp add: initial_def makePoints_eq makePoint_def findAnchors_def Let_def)

theorem makePoints_postcondition_witness:
  "length (makePoints (\<lambda>t. []) \<lparr>innerWidth = Fin 2, innerHeight = Fin 2\<rparr> 1) = 1
   \<and> makePoints (\<lambda>t. []) \<lparr>innerWidth = Fin 2, innerHeight = Fin 2\<rparr> 1 ! 0 =
        \<lparr>gx = elem (project \<lparr>innerWidth = Fin 2, innerHeight = Fin 2\<rparr> (genGrid (Fin 1) (Fin 0))) 0,
         gy = elem (project \<lparr>innerWidth = Fin 2, innerHeight = Fin 2\<rparr> (genGrid (Fin 1) (Fin 0))) 1,
         wx = elem (project \<lparr>innerWidth = Fin 2, innerHeight = Fin 2\<rparr> (genWave (Fin 1) (Fin 0))) 0,
         wy = elem (project \<lparr>innerWidth = Fin 2, innerHeight = Fin 2\<rparr> (genWave (Fin 1) (Fin 0))) 1,
         sx = elem (project \<lparr>innerWidth = Fin 2, innerHeight = Fin 2\<rparr> (genSpiral (Fin 1) (Fin 0))) 0,
         sy = elem (project \<lparr>innerWidth = Fin 2, innerHeight = Fin 2\<rparr> (genSpiral (Fin 1) (Fin 0))) 1,
         px = elem (project \<lparr>innerWidth = Fin 2, innerHeight = Fin 2\<rparr> (genPhyllotaxis (Fin 1) (Fin 0))) 0,
         py = elem (project \<lparr>innerWidth = Fin 2, innerHeight = Fin 2\<rparr> (genPhyllotaxis (Fin 1) (Fin 0))) 1,
         x = Fin 0, y = Fin 0,
         color = []\<rparr>"
  using makePoints_postcondition [of "\<lambda>t. []" "\<lparr>innerWidth = Fin 2, innerHeight = Fin 2\<rparr>" 1]
  by simp

section \<open>The tick\<close>

lemma movePoint_blend:
  "movePoint b (xForLayout cur) (xForLayout nxt) (yForLayout cur) (yForLayout nxt) pt
   = blend_point cur nxt b pt"
  by (cases cur; cases nxt)
     (simp_all add: movePoint_def lerp_def getProp_def blend_point_def spec_lerp_def Let_def)

lemma blend_point_forget: "blend_point cur nxt b (forget_live pt) = blend_point cur nxt b pt"
  by (cases cur; cases nxt) (simp_all add: blend_point_def forget_live_def)

lemma blend_point_forget_eq:
  "forget_live p = forget_live q \<Longrightarrow> blend_point cur nxt b p = blend_point cur nxt b q"
  by (metis blend_point_forget)

lemma forget_blend_point: "forget_live (blend_point cur nxt b pt) = forget_live pt"
  by (simp add: blend_point_def forget_live_def)

lemma blend_point_twice:
  "blend_point cur nxt b (blend_point cur' nxt' b' pt) = blend_point cur nxt b pt"
  by (rule blend_point_forget_eq) (simp add: forget_blend_point)

lemma next_tick_eq:
  "next_tick N order s =
     (let st = (step s + 1) mod N;
          lay = (if st = 0 then (layout s + 1) mod length order else layout s)
      in \<lparr>layout = lay, step = st,
          points = map (blend_point (order ! lay) (order ! ((lay + 1) mod length order)) (pct N st))
                     (points s)\<rparr>)"
  by (simp add: next_tick_def Let_def movePoint_blend cong: map_cong)

lemma step_next_tick: "step (next_tick N order s) = (step s + 1) mod N"
  by (simp add: next_tick_eq Let_def)

lemma layout_next_tick:
  "layout (next_tick N order s)
   = (if (step s + 1) mod N = 0 then (layout s + 1) mod length order else layout s)"
  by (simp add: next_tick_eq Let_def)

lemma points_next_tick:
  "points (next_tick N order s)
   = map (blend_point (order ! layout (next_tick N order s))
            (order ! ((layout (next_tick N order s) + 1) mod length order))
            (pct N (step (next_tick N order s)))) (points s)"
  by (simp add: next_tick_eq Let_def)

lemma next_tick_forget:
  assumes "layout t = layout s" "step t = step s"
    "map forget_live (points t) = map forget_live (points s)"
  shows "next_tick N order t = next_tick N order s"
proof -
  have "map (blend_point c n b) (points t) = map (blend_point c n b) (points s)" for c n b
  proof -
    have "map (blend_point c n b) (points t) = map (blend_point c n b) (map forget_live (points t))"
      by (simp add: blend_point_forget)
    also have "\<dots> = map (blend_point c n b) (map forget_live (points s))"
      by (simp only: assms(3))
    also have "\<dots> = map (blend_point c n b) (points s)"
      by (simp add: blend_point_forget)
    finally show ?thesis .
  qed
  then show ?thesis
    by (simp add: next_tick_eq Let_def assms(1,2))
qed

text \<open>
  Claim C1.  A tick first increments the step index modulo the step budget \<open>N\<close> and, when
  it wraps to 0, advances the cycle position.  Then it sets every point's live position
  to \<open>lerp(a, b, blend)\<close>, where \<open>a\<close> is the point's anchor in the current layout, \<open>b\<close> its
  anchor in the next layout, \<open>blend = min(1, step / (N * 0.8))\<close> and
  \<open>lerp(a, b, t) = a + (b - a) * t\<close>; nothing else of the point changes.  The new state
  does not depend on the previous live positions: from any state that differs at most
  in them the tick leads to the same state.
\<close>

theorem next_tick_interpolates:
  assumes "0 < N" "layout s < length order"
  shows "let s1 = next_tick N order s;
             cur = order ! layout s1;
             nxt = order ! ((layout s1 + 1) mod length order)
         in step s1 = (step s + 1) mod N
          \<and> layout s1 = (if step s1 = 0 then (layout s + 1) mod length order else layout s)
          \<and> layout s1 < length order
          \<and> pct N (step s1) = Fin (min 1 (real (step s1) / (real N * 0.8)))
          \<and> points s1 = map (blend_point cur nxt (pct N (step s1))) (points s)
          \<and> (\<forall>t. layout t = layout s \<and> step t = step s
                 \<and> map forget_live (points t) = map forget_live (points s)
               \<longrightarrow> next_tick N order t = s1)"
proof -
  define s1 where "s1 = next_tick N order s"
  have L: "0 < length order" using assms(2) by (cases order) simp_all
  have a: "step s1 = (step s + 1) mod N"
    by (simp add: s1_def step_next_tick)
  have b: "layout s1 = (if step s1 = 0 then (layout s + 1) mod length order else layout s)"
    by (simp add: s1_def step_next_tick layout_next_tick)
  have c: "layout s1 < length order"
    using L assms(2) by (simp add: b)
  have d: "points s1 = map (blend_point (order ! layout s1)
              (order ! ((layout s1 + 1) mod length order)) (pct N (step s1))) (points s)"
    unfolding s1_def by (rule points_next_tick)
  have e: "\<forall>t. layout t = layout s \<and> step t = step s
                 \<and> map forget_live (points t) = map forget_live (points s)
               \<longrightarrow> next_tick N order t = s1"
    unfolding s1_def using next_tick_forget by blast
  have f: "pct N (step s1) = Fin (min 1 (real (step s1) / (real N * 0.8)))"
    by (rule pct_fin [OF assms(1)])
  show ?thesis
    unfolding Let_def s1_def [symmetric] using a b c d e f by blast
qed

theorem next_tick_interpolates_witness:
  "step (next_tick numSteps LAYOUT_ORDER
      \<lparr>layout = 0, step = 0,
       points = [\<lparr>gx = Fin 1, gy = Fin 2, wx = Fin 3, wy = Fin 4, sx = Fin 97, sy = Fin 6,
                  px = Fin 1, py = Fin 8, x = Fin 0, y = Fin 0, color = []\<rparr>]\<rparr>) = 1
   \<and> points (next_tick numSteps LAYOUT_ORDER
      \<lparr>layout = 0, step = 0,
       points = [\<lparr>gx = Fin 1, gy = Fin 2, wx = Fin 3, wy = Fin 4, sx = Fin 97, sy = Fin 6,
                  px = Fin 1, py = Fin 8, x = Fin 0, y = Fin 0, color = []\<rparr>]\<rparr>)
     = [\<lparr>gx = Fin 1, gy = Fin 2, wx = Fin 3, wy = Fin 4, sx = Fin 97, sy = Fin 6,
         px = Fin 1, py = Fin 8, x = Fin 2, y = Fin (8 - 1 / 48), color = []\<rparr>]
   \<and> next_tick numSteps LAYOUT_ORDER
      \<lparr>layout = 0, step = 0,
       points = [\<lparr>gx = Fin 1, gy = Fin 2, wx = Fin 3, wy = Fin 4, sx = Fin 97, sy = Fin 6,
                  px = Fin 1, py = Fin 8, x = Fin 50, y = NaN, color = []\<rparr>]\<rparr>
     = next_tick numSteps LAYOUT_ORDER
      \<lparr>layout = 0, step = 0,
       points = [\<lparr>gx = Fin 1, gy = Fin 2, wx = Fin 3, wy = Fin 4, sx = Fin 97, sy = Fin 6,
                  px = Fin 1, py = Fin 8, x = Fin 0, y = Fin 0, color = []\<rparr>]\<rparr>"
proof -
  let ?p = "\<lparr>gx = Fin 1, gy = Fin 2, wx = Fin 3, wy = Fin 4, sx = Fin 97, sy = Fin 6,
                  px = Fin 1, py = Fin 8, x = Fin 0, y = Fin 0, color = []\<rparr>"
  let ?q = "\<lparr>gx = Fin 1, gy = Fin 2, wx = Fin 3, wy = Fin 4, sx = Fin 97, sy = Fin 6,
                  px = Fin 1, py = Fin 8, x = Fin 50, y = NaN, color = []\<rparr>"
  let ?s = "\<lparr>layout = 0, step = 0, points = [?p]\<rparr>"
  let ?t = "\<lparr>layout = 0, step = 0, points = [?q]\<rparr>"
  have h1: "0 < numSteps" by (simp add: numSteps_def)
  have h2: "layout ?s < length LAYOUT_ORDER" by (simp add: LAYOUT_ORDER_def)
  have h3: "layout ?t = layout ?s \<and> step ?t = step ?s
            \<and> map forget_live (points ?t) = map forget_live (points ?s)"
    by (simp add: forget_live_def)
  note th = next_tick_interpolates [OF h1 h2, unfolded Let_def]
  have a: "step (next_tick numSteps LAYOUT_ORDER ?s) = 1"
    using th [THEN conjunct1] by (simp add: numSteps_def)
  have l: "layout (next_tick numSteps LAYOUT_ORDER ?s) = 0"
    using th [THEN conjunct2, THEN conjunct1] by (simp only: a) simp
  have "points (next_tick numSteps LAYOUT_ORDER ?s)
        = map (blend_point (LAYOUT_ORDER ! 0) (LAYOUT_ORDER ! ((0 + 1) mod length LAYOUT_ORDER))
            (pct numSteps 1)) (points ?s)"
    using th [THEN conjunct2, THEN conjunct2, THEN conjunct2, THEN conjunct2, THEN conjunct1]
    by (simp only: a l)
  then have "points (next_tick numSteps LAYOUT_ORDER ?s)
        = map (blend_point PHYLLOTAXIS SPIRAL (pct numSteps 1)) (points ?s)"
    by (simp add: LAYOUT_ORDER_def)
  then have b: "points (next_tick numSteps LAYOUT_ORDER ?s) = [?p\<lparr>x := Fin 2, y := Fin (8 - 1 / 48)\<rparr>]"
    by (simp add: numSteps_def blend_point_def spec_lerp_def pct_def)
  have c: "next_tick numSteps LAYOUT_ORDER ?t = next_tick numSteps LAYOUT_ORDER ?s"
    using th [THEN conjunct2, THEN conjunct2, THEN conjunct2, THEN conjunct2, THEN conjunct2] h3
    by blast
  show ?thesis using a b c by simp
qed

section \<open>The clock\<close>

lemma frames_next_tick:
  "frames N order ts (next_tick N order s) = next_tick N order (frames N order ts s)"
  by (induction ts arbitrary: s) simp_all

lemma frames_clock:
  assumes "step s < N" "layout s < length order"
  shows "step (frames N order ts s) = (step s + length ts) mod N
       \<and> layout (frames N order ts s) = (layout s + (step s + length ts) div N) mod length order"
  using assms
proof (induction ts arbitrary: s)
  case Nil
  then show ?case by simp
next
  case (Cons t ts)
  have N: "0 < N" and L: "0 < length order" using Cons.prems by (cases order; simp)+
  let ?s1 = "next_tick N order s"
  have st1: "step ?s1 < N" using N by (simp add: step_next_tick)
  have lay1: "layout ?s1 < length order" using L Cons.prems(2) by (simp add: layout_next_tick)
  note IH = Cons.IH [OF st1 lay1]
  show ?case
  proof (cases "step s + 1 < N")
    case True
    then have "step ?s1 = step s + 1" "layout ?s1 = layout s"
      by (simp_all add: step_next_tick layout_next_tick)
    then show ?thesis using IH by simp
  next
    case False
    then have eq: "step s + 1 = N" using Cons.prems(1) by simp
    then have s0: "step ?s1 = 0" and l0: "layout ?s1 = (layout s + 1) mod length order"
      by (simp_all add: step_next_tick layout_next_tick)
    have e: "step s + length (t # ts) = N + length ts" using eq by simp
    have d: "(step s + length (t # ts)) div N = 1 + length ts div N"
      using N by (simp only: e) simp
    have m: "(step s + length (t # ts)) mod N = length ts mod N"
      by (simp only: e) simp
    show ?thesis
      using IH by (simp only: frames.simps s0 l0 d m) (simp add: mod_add_left_eq add.assoc)
  qed
qed

text \<open>
  Claim C3.  The clock starts at cycle position 0 and step index 0, and \<open>Visualization\<close>
  calls \<open>next\<close> once before the first animation frame: that call is tick 1, the initial
  pre-increment, and leaves the step index at \<open>1 mod N\<close>.  After exactly
  \<open>N * length order\<close> further ticks the pair of cycle position and step index is back
  at its value after tick 1.  Counted from the state before tick 1, the same number of
  ticks leads back to \<open>(0, 0)\<close>.
\<close>

theorem cycle_wrap:
  assumes "0 < N" "order \<noteq> []" "length ts = N * length order"
  shows "let s0 = \<lparr>layout = 0, step = 0, points = pts\<rparr>;
             s1 = next_tick N order s0
         in step s1 = 1 mod N
          \<and> layout s1 = (if 1 mod N = 0 then 1 mod length order else 0)
          \<and> (layout (frames N order ts s1), step (frames N order ts s1)) = (layout s1, step s1)
          \<and> (layout (frames N order ts s0), step (frames N order ts s0)) = (0, 0)"
proof -
  define s0 where "s0 = \<lparr>layout = 0, step = 0, points = pts\<rparr>"
  define s1 where "s1 = next_tick N order s0"
  have L: "0 < length order" using assms(2) by simp
  have st0: "step s0 = 0" and lay0: "layout s0 = 0" by (simp_all add: s0_def)
  have a: "step s1 = 1 mod N"
    by (simp add: s1_def step_next_tick st0)
  have b: "layout s1 = (if 1 mod N = 0 then 1 mod length order else 0)"
    by (simp add: s1_def layout_next_tick st0 lay0)
  have st1: "step s1 < N" using assms(1) by (simp add: a)
  have lay1: "layout s1 < length order"
  proof (cases "1 mod N = 0")
    case True
    then have "layout s1 = 1 mod length order" by (simp add: b)
    then show ?thesis using mod_less_divisor [OF L, of 1] by (simp only:)
  next
    case False
    then have "layout s1 = 0" by (simp add: b)
    then show ?thesis using L by (simp only:)
  qed
  have d1: "(step s1 + N * length order) div N = length order"
    using st1 by simp
  have m1: "(step s1 + N * length order) mod N = step s1"
    using st1 by simp
  have c: "(layout (frames N order ts s1), step (frames N order ts s1)) = (layout s1, step s1)"
    using frames_clock [OF st1 lay1, of ts] lay1 st1 by (simp add: assms(3) d1 m1)
  have "step s0 < N" "layout s0 < length order"
    using assms(1) L by (simp_all add: st0 lay0)
  from frames_clock [OF this, of ts]
  have d: "(layout (frames N order ts s0), step (frames N order ts s0)) = (0, 0)"
    using assms(1) by (simp add: assms(3) st0 lay0)
  show ?thesis
    unfolding Let_def s0_def [symmetric] s1_def [symmetric] using a b c d by blast
qed

theorem cycle_wrap_witness:
  "(layout (frames numSteps LAYOUT_ORDER (replicate 600 0)
              (next_tick numSteps LAYOUT_ORDER \<lparr>layout = 0, step = 0, points = []\<rparr>)),
    step (frames numSteps LAYOUT_ORDER (replicate 600 0)
              (next_tick numSteps LAYOUT_ORDER \<lparr>layout = 0, step = 0, points = []\<rparr>)))
   = (0, 1)"
proof -
  have h1: "0 < numSteps" by (simp add: numSteps_def)
  have h2: "LAYOUT_ORDER \<noteq> []" by (simp add: LAYOUT_ORDER_def)
  have h3: "length (replicate 600 (0::real)) = numSteps * length LAYOUT_ORDER"
    by (simp add: numSteps_def LAYOUT_ORDER_def)
  note th = cycle_wrap [OF h1 h2 h3, of "[]", unfolded Let_def]
  have a: "step (next_tick numSteps LAYOUT_ORDER \<lparr>layout = 0, step = 0, points = []\<rparr>) = 1"
    using th [THEN conjunct1] by (simp add: numSteps_def)
  have b: "layout (next_tick numSteps LAYOUT_ORDER \<lparr>layout = 0, step = 0, points = []\<rparr>) = 0"
    using th [THEN conjunct2, THEN conjunct1] by (simp add: numSteps_def)
  show ?thesis
    using th [THEN conjunct2, THEN conjunct2, THEN conjunct1] by (simp only: a b)
qed

section \<open>Determinism\<close>

lemma trace_timestamps:
  "length ts = length ts' \<Longrightarrow> trace N order ts s = trace N order ts' s"
proof (induction ts arbitrary: ts' s)
  case Nil
  then show ?case by simp
next
  case (Cons t ts)
  then obtain t' us where ts': "ts' = t' # us" and len: "length ts = length us"
    by (cases ts') simp_all
  show ?case
    using Cons.IH [OF len] by (simp add: ts' Let_def)
qed

lemma uncolor_blend_point: "uncolor (blend_point cur nxt b pt) = blend_point cur nxt b (uncolor pt)"
  by (cases cur; cases nxt) (simp_all add: uncolor_def blend_point_def)

lemma live_uncolor: "live (uncolor pt) = live pt"
  by (simp add: live_def uncolor_def)

lemma uncolor_makePoints:
  "map uncolor (makePoints cm win count) = map uncolor (makePoints cm' win count)"
  by (simp add: makePoints_eq makePoint_def uncolor_def Let_def)

lemma uncolor_next_tick:
  assumes "layout s = layout s'" "step s = step s'"
    "map uncolor (points s) = map uncolor (points s')"
  shows "layout (next_tick N order s) = layout (next_tick N order s')
       \<and> step (next_tick N order s) = step (next_tick N order s')
       \<and> map uncolor (points (next_tick N order s)) = map uncolor (points (next_tick N order s'))"
proof -
  have "map uncolor (map (blend_point c n b) (points s))
        = map uncolor (map (blend_point c n b) (points s'))" for c n b
  proof -
    have "map uncolor (map (blend_point c n b) (points s))
          = map (blend_point c n b) (map uncolor (points s))"
      by (simp add: uncolor_blend_point)
    also have "\<dots> = map (blend_point c n b) (map uncolor (points s'))"
      by (simp only: assms(3))
    also have "\<dots> = map uncolor (map (blend_point c n b) (points s'))"
      by (simp add: uncolor_blend_point)
    finally show ?thesis .
  qed
  then show ?thesis
    by (simp add: next_tick_eq Let_def assms(1,2))
qed

lemma live_of_uncolor:
  assumes "map uncolor ps = map uncolor qs"
  shows "map live ps = map live qs"
proof -
  have "map live ps = map live (map uncolor ps)" by (simp add: live_uncolor)
  also have "\<dots> = map live (map uncolor qs)" by (simp only: assms)
  also have "\<dots> = map live qs" by (simp add: live_uncolor)
  finally show ?thesis .
qed

lemma trace_uncolor:
  assumes "layout s = layout s'" "step s = step s'"
    "map uncolor (points s) = map uncolor (points s')"
  shows "trace N order ts s = trace N order ts s'"
  using assms
proof (induction ts arbitrary: s s')
  case Nil
  then show ?case by simp
next
  case (Cons t ts)
  note nt = uncolor_next_tick [OF Cons.prems, of N order]
  have "trace N order ts (next_tick N order s) = trace N order ts (next_tick N order s')"
    using nt by (intro Cons.IH) simp_all
  moreover have "map live (points (next_tick N order s)) = map live (points (next_tick N order s'))"
    using nt by (intro live_of_uncolor) simp
  ultimately show ?case by (simp add: Let_def)
qed

text \<open>
  Claim C8, as the code has it.  For a fixed point count, cycle order, step budget and
  window size, two runs produce identical live positions for every point, tick for tick:
  the positions depend neither on the time stamps of the animation frames nor on the
  colour map.
\<close>

theorem run_deterministic:
  assumes "length ts = length ts'"
  shows "run N order cm win count ts = run N order cm' win count ts'"
proof -
  let ?s = "initial cm win count" and ?s' = "initial cm' win count"
  have i: "layout ?s = layout ?s'" "step ?s = step ?s'"
    "map uncolor (points ?s) = map uncolor (points ?s')"
    by (simp_all add: initial_def uncolor_makePoints)
  note nt = uncolor_next_tick [OF i, of N order]
  have "trace N order ts (next_tick N order ?s) = trace N order ts (next_tick N order ?s')"
    using nt by (intro trace_uncolor) simp_all
  also have "\<dots> = trace N order ts' (next_tick N order ?s')"
    by (rule trace_timestamps [OF assms])
  finally have t: "trace N order ts (next_tick N order ?s) = trace N order ts' (next_tick N order ?s')" .
  have "map live (points (next_tick N order ?s)) = map live (points (next_tick N order ?s'))"
    using nt by (intro live_of_uncolor) simp
  then show ?thesis
    using t by (simp add: run_def Let_def)
qed

theorem run_deterministic_witness:
  "run numSteps LAYOUT_ORDER (\<lambda>t. []) \<lparr>innerWidth = Fin 2, innerHeight = Fin 2\<rparr> 2 [16, 33]
   = run numSteps LAYOUT_ORDER (\<lambda>t. ''c'') \<lparr>innerWidth = Fin 2, innerHeight = Fin 2\<rparr> 2 [17, 50]"
proof -
  have h: "length [16, 33 :: real] = length [17, 50 :: real]" by simp
  show ?thesis by (rule run_deterministic [OF h])
qed


lemma project_fin:
  "project \<lparr>innerWidth = Fin w, innerHeight = Fin h\<rparr> [Fin a, Fin b]
   = [Fin (a * min (h / 2) (w / 2) + w / 2), Fin (b * min (h / 2) (w / 2) + h / 2)]"
  by (simp add: project_def translate_def scale_def elem_def upt_rec [of 0] upt_rec [of 1])

lemma theta_fin: "theta = Fin (pi * (3 - sqrt 5))"
  by (simp add: theta_def Math_PI_def)

lemma genPhyllotaxis_0: "0 < n \<Longrightarrow> genPhyllotaxis (Fin (real n)) (Fin 0) = [Fin 0, Fin 0]"
  by (simp add: genPhyllotaxis_def theta_fin Let_def)

lemma genSpiral_0: "2 \<le> n \<Longrightarrow> genSpiral (Fin (real n)) (Fin 0) = [Fin 0, Fin 0]"
  by (simp add: genSpiral_def genSpiral_t_def Math_PI_def Let_def)

lemma first_point_tick1:
  "hd (hd (run numSteps LAYOUT_ORDER cm \<lparr>innerWidth = Fin w, innerHeight = Fin h\<rparr> 2 []))
   = (Fin (w / 2), Fin (h / 2))"
proof -
  let ?W = "\<lparr>innerWidth = Fin w, innerHeight = Fin h\<rparr>"
  have p: "genPhyllotaxis (Fin 2) (Fin 0) = [Fin 0, Fin 0]"
    using genPhyllotaxis_0 [of 2] by simp
  have sp: "genSpiral (Fin 2) (Fin 0) = [Fin 0, Fin 0]"
    using genSpiral_0 [of 2] by simp
  have a: "px (makePoint cm ?W 2 0) = Fin (w / 2)" "py (makePoint cm ?W 2 0) = Fin (h / 2)"
    by (simp_all add: makePoint_def findAnchors_def Let_def p project_fin elem_def)
  have b: "sx (makePoint cm ?W 2 0) = Fin (w / 2)" "sy (makePoint cm ?W 2 0) = Fin (h / 2)"
    by (simp_all add: makePoint_def findAnchors_def Let_def sp project_fin elem_def)
  have c: "pct numSteps (Suc 0) = Fin (1 / 96)"
    by (simp add: pct_def numSteps_def)
  have "hd (hd (run numSteps LAYOUT_ORDER cm ?W 2 []))
        = live (blend_point PHYLLOTAXIS SPIRAL (pct numSteps 1) (makePoint cm ?W 2 0))"
    by (simp add: run_def Let_def initial_def makePoints_eq upt_rec [of 0] next_tick_eq
        numSteps_def LAYOUT_ORDER_def)
  also have "\<dots> = (Fin (w / 2), Fin (h / 2))"
    by (simp add: live_def blend_point_def a b c spec_lerp_def)
  finally show ?thesis .
qed

text \<open>
  The claim as the specification states it fixes the point count, the cycle order and the
  step budget only.  \<open>project\<close> reads the size of the window, and two runs that agree on
  those three differ at the first tick when their windows differ: point 0 is at \<open>(1, 1)\<close>
  in a window of 2 by 2 pixels and at \<open>(2, 2)\<close> in one of 4 by 4.
\<close>

theorem run_depends_on_window:
  "hd (hd (run numSteps LAYOUT_ORDER (\<lambda>t. []) \<lparr>innerWidth = Fin 2, innerHeight = Fin 2\<rparr> 2 []))
     = (Fin 1, Fin 1)
   \<and> hd (hd (run numSteps LAYOUT_ORDER (\<lambda>t. []) \<lparr>innerWidth = Fin 4, innerHeight = Fin 4\<rparr> 2 []))
     = (Fin 2, Fin 2)
   \<and> run numSteps LAYOUT_ORDER (\<lambda>t. []) \<lparr>innerWidth = Fin 2, innerHeight = Fin 2\<rparr> 2 []
     \<noteq> run numSteps LAYOUT_ORDER (\<lambda>t. []) \<lparr>innerWidth = Fin 4, innerHeight = Fin 4\<rparr> 2 []"
proof -
  have a: "hd (hd (run numSteps LAYOUT_ORDER (\<lambda>t. []) \<lparr>innerWidth = Fin 2, innerHeight = Fin 2\<rparr> 2 []))
     = (Fin 1, Fin 1)"
    using first_point_tick1 [of "\<lambda>t. []" 2 2] by simp
  have b: "hd (hd (run numSteps LAYOUT_ORDER (\<lambda>t. []) \<lparr>innerWidth = Fin 4, innerHeight = Fin 4\<rparr> 2 []))
     = (Fin 2, Fin 2)"
    using first_point_tick1 [of "\<lambda>t. []" 4 4] by simp
  have "run numSteps LAYOUT_ORDER (\<lambda>t. []) \<lparr>innerWidth = Fin 2, innerHeight = Fin 2\<rparr> 2 []
     \<noteq> run numSteps LAYOUT_ORDER (\<lambda>t. []) \<lparr>innerWidth = Fin 4, innerHeight = Fin 4\<rparr> 2 []"
  proof
    assume "run numSteps LAYOUT_ORDER (\<lambda>t. []) \<lparr>innerWidth = Fin 2, innerHeight = Fin 2\<rparr> 2 []
     = run numSteps LAYOUT_ORDER (\<lambda>t. []) \<lparr>innerWidth = Fin 4, innerHeight = Fin 4\<rparr> 2 []"
    then have "(Fin 1, Fin 1) = (Fin 2, Fin 2)"
      using a b by (simp only:)
    then show False by simp
  qed
  then show ?thesis using a b by blast
qed

section \<open>Continuity at a layout change, in exact arithmetic\<close>

lemma isFinite_iff: "isFinite a \<longleftrightarrow> (\<exists>r. a = Fin r)"
  by (cases a) simp_all

lemma genPhyllotaxis_fin:
  assumes "0 < n"
  shows "\<exists>a b. genPhyllotaxis (Fin (real n)) (Fin (real i)) = [Fin a, Fin b]"
proof -
  have "real n \<noteq> 0" and "\<not> real i / real n < 0"
    using assms by (simp_all add: not_less)
  then show ?thesis
    by (simp add: genPhyllotaxis_def theta_fin Let_def)
qed

lemma genGrid_fin:
  assumes "1 \<le> n"
  shows "\<exists>a b. genGrid (Fin (real n)) (Fin (real i)) = [Fin a, Fin b]"
proof -
  obtain r where r: "genGrid_rowLength (Fin (real n)) = Fin (real r)" "1 \<le> r"
    using round_sqrt_bounds [OF assms] by blast
  then have "0 < r" by simp
  from genGrid_nat [OF r(1) this] show ?thesis by blast
qed

lemma genWave_fin:
  assumes "2 \<le> n"
  shows "\<exists>a b. genWave (Fin (real n)) (Fin (real i)) = [Fin a, Fin b]"
proof -
  have "real n - 1 \<noteq> 0" using assms by simp
  then have "genWave (Fin (real n)) (Fin (real i))
      = [Fin (- 1 + real i * (2 / (real n - 1))),
         Fin (sin ((- 1 + real i * (2 / (real n - 1))) * pi * 3) * 0.3)]"
    by (simp add: genWave_def genWave_xScale_def Math_PI_def Let_def)
  then show ?thesis by blast
qed

lemma genSpiral_fin:
  assumes "2 \<le> n"
  shows "\<exists>a b. genSpiral (Fin (real n)) (Fin (real i)) = [Fin a, Fin b]"
proof -
  have "real n - 1 \<noteq> 0" and "\<not> real i / (real n - 1) < 0"
    using assms by (simp_all add: not_less)
  then show ?thesis
    by (simp add: genSpiral_def genSpiral_t_def Math_PI_def Let_def)
qed

lemma makePoint_finite:
  assumes "2 \<le> count"
  shows "finite_anchors (makePoint cm \<lparr>innerWidth = Fin w, innerHeight = Fin h\<rparr> count i)"
proof -
  obtain a1 b1 where g: "genGrid (Fin (real count)) (Fin (real i)) = [Fin a1, Fin b1]"
    using genGrid_fin [of count i] assms by auto
  obtain a2 b2 where wv: "genWave (Fin (real count)) (Fin (real i)) = [Fin a2, Fin b2]"
    using genWave_fin [OF assms, of i] by blast
  obtain a3 b3 where sp: "genSpiral (Fin (real count)) (Fin (real i)) = [Fin a3, Fin b3]"
    using genSpiral_fin [OF assms, of i] by blast
  obtain a4 b4 where ph: "genPhyllotaxis (Fin (real count)) (Fin (real i)) = [Fin a4, Fin b4]"
    using genPhyllotaxis_fin [of count i] assms by auto
  show ?thesis
    by (simp add: finite_anchors_def makePoint_def findAnchors_def Let_def g wv sp ph
        project_fin elem_def)
qed

lemma finite_anchors_blend_point:
  "finite_anchors (blend_point cur nxt b pt) = finite_anchors pt"
  by (simp add: finite_anchors_def blend_point_def)

lemma finite_anchors_next_tick:
  "list_all finite_anchors (points s) \<Longrightarrow> list_all finite_anchors (points (next_tick N order s))"
  by (simp add: next_tick_eq Let_def list_all_iff finite_anchors_blend_point)

lemma finite_anchors_frames:
  "list_all finite_anchors (points s) \<Longrightarrow> list_all finite_anchors (points (frames N order ts s))"
  by (induction ts arbitrary: s) (simp_all add: finite_anchors_next_tick)

lemma finite_anchors_initial:
  "2 \<le> count \<Longrightarrow>
   list_all finite_anchors (points (initial cm \<lparr>innerWidth = Fin w, innerHeight = Fin h\<rparr> count))"
  by (simp add: initial_def makePoints_eq list_all_iff makePoint_finite)

lemma spec_lerp_ends:
  assumes "isFinite a" "isFinite b"
  shows "spec_lerp a b (Fin 1) = b" "spec_lerp a b (Fin 0) = a"
  using assms by (auto simp add: isFinite_iff spec_lerp_def)

lemma anchor_finite:
  "finite_anchors pt \<Longrightarrow> isFinite (fst (anchor k pt)) \<and> isFinite (snd (anchor k pt))"
  by (cases k) (simp_all add: finite_anchors_def)

lemma live_blend_point_ends:
  assumes "finite_anchors pt"
  shows "live (blend_point cur nxt (Fin 1) pt) = anchor nxt pt"
    and "live (blend_point cur nxt (Fin 0) pt) = anchor cur pt"
  using anchor_finite [OF assms, of cur] anchor_finite [OF assms, of nxt]
  by (simp_all add: live_def blend_point_def spec_lerp_ends)

lemma forget_frames:
  "map forget_live (points (frames N order ts s)) = map forget_live (points s)"
proof (induction ts arbitrary: s)
  case Nil
  then show ?case by simp
next
  case (Cons t ts)
  have "map forget_live (points (next_tick N order s)) = map forget_live (points s)"
    by (simp add: next_tick_eq Let_def forget_blend_point)
  then show ?case using Cons.IH [of "next_tick N order s"] by simp
qed

lemma map_blend_point_forget:
  assumes "map forget_live ps = map forget_live qs"
  shows "map (blend_point c n b) ps = map (blend_point c n b) qs"
proof -
  have "map (blend_point c n b) ps = map (blend_point c n b) (map forget_live ps)"
    by (simp add: blend_point_forget)
  also have "\<dots> = map (blend_point c n b) (map forget_live qs)"
    by (simp only: assms)
  also have "\<dots> = map (blend_point c n b) qs"
    by (simp add: blend_point_forget)
  finally show ?thesis .
qed

text \<open>The state after one tick and the frames \<open>ts\<close>, in closed form.\<close>

lemma points_after_ticks:
  fixes ts :: "real list" and order :: "Layout list"
  assumes "step s < N" "layout s < length order"
  defines "st \<equiv> (step s + (1 + length ts)) mod N"
    and "lay \<equiv> (layout s + (step s + (1 + length ts)) div N) mod length order"
  shows "step (frames N order ts (next_tick N order s)) = st"
    and "layout (frames N order ts (next_tick N order s)) = lay"
    and "points (frames N order ts (next_tick N order s))
         = map (blend_point (order ! lay) (order ! ((lay + 1) mod length order)) (pct N st)) (points s)"
proof -
  let ?s2 = "frames N order ts (next_tick N order s)"
  have clock: "step ?s2 = st \<and> layout ?s2 = lay"
    using frames_clock [OF assms(1,2), of "0 # ts"] by (simp add: st_def lay_def)
  show "step ?s2 = st" and "layout ?s2 = lay" using clock by simp_all
  have eq: "?s2 = next_tick N order (frames N order ts s)" by (rule frames_next_tick)
  have "points ?s2 = map (blend_point (order ! lay) (order ! ((lay + 1) mod length order)) (pct N st))
          (points (frames N order ts s))"
    using points_next_tick [of N order "frames N order ts s"] clock
    by (simp only: eq [symmetric])
  also have "\<dots> = map (blend_point (order ! lay) (order ! ((lay + 1) mod length order)) (pct N st))
          (points s)"
    by (rule map_blend_point_forget) (rule forget_frames)
  finally show "points ?s2
         = map (blend_point (order ! lay) (order ! ((lay + 1) mod length order)) (pct N st)) (points s)" .
qed

lemma pct_last: "5 \<le> N \<Longrightarrow> pct N (N - 1) = Fin 1"
proof -
  assume N: "5 \<le> N"
  then have "real N * 0.8 \<le> real (N - 1)"
    by (simp add: field_simps)
  then have "1 \<le> real (N - 1) / (real N * 0.8)"
    using N by (simp add: field_simps)
  then show ?thesis using N by (simp add: pct_fin min_def)
qed

lemma pct_0: "0 < N \<Longrightarrow> pct N 0 = Fin 0"
  by (simp add: pct_fin)


text \<open>
  In exact arithmetic: take a point count of at least 2, a window of finite size, a step
  budget \<open>N \<ge> 5\<close> and a non-empty cycle.  On every tick at which the step index wraps
  to 0, every point's new live position equals its live position after the tick before.
  What the rounding of doubles makes of this equality is settled in the last section.
\<close>

lemma no_jump_at_layout_change:
  assumes "2 \<le> count" "5 \<le> N" "order \<noteq> []"
    and "s1 = frames N order ts
                (next_tick N order (initial cm \<lparr>innerWidth = Fin w, innerHeight = Fin h\<rparr> count))"
    and "step (next_tick N order s1) = 0"
  shows "step s1 = N - 1 \<and> pct N (step s1) = Fin 1
       \<and> layout (next_tick N order s1) = (layout s1 + 1) mod length order
       \<and> pct N (step (next_tick N order s1)) = Fin 0
       \<and> map live (points (next_tick N order s1)) = map live (points s1)"
proof -
  define s0 where "s0 = initial cm \<lparr>innerWidth = Fin w, innerHeight = Fin h\<rparr> count"
  define L where "L = length order"
  define lay where "lay = layout s1"
  define s2 where "s2 = next_tick N order s1"
  have N: "0 < N" using assms(2) by simp
  have Lpos: "0 < L" using assms(3) by (simp add: L_def)
  have s1: "s1 = frames N order ts (next_tick N order s0)"
    by (simp add: assms(4) s0_def)
  have c0: "step s0 < N" "layout s0 < length order"
    using N Lpos by (simp_all add: s0_def initial_def L_def)
  have fin: "list_all finite_anchors (points s0)"
    unfolding s0_def by (rule finite_anchors_initial [OF assms(1)])
  have st1: "step s1 < N"
    using points_after_ticks(1) [OF c0, of ts] N by (simp add: s1)
  have p1: "points s1 = map (blend_point (order ! lay) (order ! ((lay + 1) mod L)) (pct N (step s1)))
              (points s0)"
    using points_after_ticks [OF c0, of ts] by (simp add: s1 lay_def L_def)
  have wrap: "(step s1 + 1) mod N = 0"
    using assms(5) by (simp add: step_next_tick)
  have last: "step s1 = N - 1"
  proof (rule ccontr)
    assume "step s1 \<noteq> N - 1"
    then have "step s1 + 1 < N" using st1 by simp
    then have "(step s1 + 1) mod N = step s1 + 1" by simp
    then show False using wrap by simp
  qed
  have b1: "pct N (step s1) = Fin 1"
    by (simp only: last) (rule pct_last [OF assms(2)])
  have st2: "step s2 = 0" using assms(5) by (simp add: s2_def)
  have lay2: "layout s2 = (lay + 1) mod L"
    using wrap by (simp add: s2_def layout_next_tick lay_def L_def)
  have b2: "pct N (step s2) = Fin 0"
    by (simp only: st2) (rule pct_0 [OF N])
  have "points s2 = map (blend_point (order ! layout s2) (order ! ((layout s2 + 1) mod L)) (pct N (step s2)))
          (points s1)"
    unfolding s2_def L_def by (rule points_next_tick)
  also have "\<dots> = map (blend_point (order ! layout s2) (order ! ((layout s2 + 1) mod L)) (pct N (step s2)))
          (points s0)"
    by (simp add: p1 blend_point_twice)
  finally have p2: "points s2 = map (blend_point (order ! ((lay + 1) mod L))
          (order ! (((lay + 1) mod L + 1) mod L)) (Fin 0)) (points s0)"
    by (simp only: lay2 b2)
  have p1': "points s1 = map (blend_point (order ! lay) (order ! ((lay + 1) mod L)) (Fin 1)) (points s0)"
    using p1 by (simp only: b1)
  have "map live (points s2) = map (anchor (order ! ((lay + 1) mod L))) (points s0)"
    using fin by (simp add: p2 list_all_iff live_blend_point_ends)
  moreover have "map live (points s1) = map (anchor (order ! ((lay + 1) mod L))) (points s0)"
    using fin by (simp add: p1' list_all_iff live_blend_point_ends)
  ultimately have "map live (points s2) = map live (points s1)" by simp
  then show ?thesis
    using last b1 lay2 b2 by (simp add: s2_def lay_def L_def)
qed


lemma nan_arith [simp]:
  "NaN + a = NaN" "a + NaN = NaN" "NaN - a = NaN" "a - NaN = NaN" "NaN * a = NaN" "a * NaN = NaN"
  by (cases a; simp add: plus_jsnum_def minus_jsnum_def times_jsnum_def)+


lemma genGrid_1_0: "genGrid (Fin 1) (Fin 0) = [Fin (- 4 / 5), Fin (- 4 / 5)]"
  by (simp add: genGrid_def genGrid_rowLength_def fin_mod trunc_def)

lemma genWave_1_0: "genWave (Fin 1) (Fin 0) = [NaN, NaN]"
  by (simp add: genWave_def genWave_xScale_def divide_jsnum_def signed_inf_def times_jsnum_def
      Let_def)

lemma project_nan:
  "project \<lparr>innerWidth = Fin w, innerHeight = Fin h\<rparr> [NaN, NaN] = [NaN, NaN]"
  by (simp add: project_def translate_def scale_def elem_def upt_rec [of 0] upt_rec [of 1])

text \<open>
  The count must be at least 2.  With a single point the divisor \<open>n - 1\<close> of the wave is 0
  and the point's wave anchor is \<open>NaN\<close>.  In a window of 2 by 2 pixels the point rests on
  its grid anchor \<open>(0.2, 0.2)\<close> after tick 359; tick 360 wraps the step index to 0, starts
  the transition from the grid to the wave, and moves the point to \<open>(NaN, NaN)\<close>.
\<close>

lemma jump_for_one_point:
  "step (next_tick numSteps LAYOUT_ORDER
      (frames numSteps LAYOUT_ORDER (replicate 358 0)
         (Visualization (\<lambda>t. []) \<lparr>innerWidth = Fin 2, innerHeight = Fin 2\<rparr> 1))) = 0
   \<and> map live (points
      (frames numSteps LAYOUT_ORDER (replicate 358 0)
         (Visualization (\<lambda>t. []) \<lparr>innerWidth = Fin 2, innerHeight = Fin 2\<rparr> 1)))
     = [(Fin (1 / 5), Fin (1 / 5))]
   \<and> map live (points (next_tick numSteps LAYOUT_ORDER
      (frames numSteps LAYOUT_ORDER (replicate 358 0)
         (Visualization (\<lambda>t. []) \<lparr>innerWidth = Fin 2, innerHeight = Fin 2\<rparr> 1))))
     = [(NaN, NaN)]"
proof -
  let ?W = "\<lparr>innerWidth = Fin 2, innerHeight = Fin 2\<rparr>"
  define p0 where "p0 = makePoint (\<lambda>t. []) ?W 1 0"
  define s0 where "s0 = initial (\<lambda>t. []) ?W 1"
  define s1 where "s1 = frames numSteps LAYOUT_ORDER (replicate 358 0)
                          (next_tick numSteps LAYOUT_ORDER s0)"
  have pts0: "points s0 = [p0]"
    by (simp add: s0_def p0_def initial_def makePoints_eq)
  have ph: "genPhyllotaxis (Fin 1) (Fin 0) = [Fin 0, Fin 0]"
    using genPhyllotaxis_0 [of 1] by simp
  have anchors: "px p0 = Fin 1" "py p0 = Fin 1" "gx p0 = Fin (1 / 5)" "gy p0 = Fin (1 / 5)"
    "wx p0 = NaN" "wy p0 = NaN"
    by (simp_all add: p0_def makePoint_def findAnchors_def Let_def ph genGrid_1_0 genWave_1_0
        project_fin project_nan elem_def)
  have c0: "step s0 < numSteps" "layout s0 < length LAYOUT_ORDER"
    by (simp_all add: s0_def initial_def numSteps_def LAYOUT_ORDER_def)
  have st: "step s1 = 119"
    using points_after_ticks(1) [OF c0, of "replicate 358 0"]
    by (simp add: s1_def s0_def initial_def numSteps_def)
  have lay: "layout s1 = 2"
    using points_after_ticks(2) [OF c0, of "replicate 358 0"]
    by (simp add: s1_def s0_def initial_def numSteps_def LAYOUT_ORDER_def)
  have "points s1 = map (blend_point (LAYOUT_ORDER ! 2) (LAYOUT_ORDER ! ((2 + 1) mod length LAYOUT_ORDER))
                       (pct numSteps 119)) (points s0)"
    using points_after_ticks(3) [OF c0, of "replicate 358 0"]
      points_after_ticks(1) [OF c0, of "replicate 358 0"]
      points_after_ticks(2) [OF c0, of "replicate 358 0"]
    unfolding s1_def [symmetric] by (simp only: st lay)
  then have p1: "points s1 = [blend_point PHYLLOTAXIS GRID (Fin 1) p0]"
    by (simp add: pts0 LAYOUT_ORDER_def pct_def numSteps_def)
  have st2: "step (next_tick numSteps LAYOUT_ORDER s1) = 0"
    by (simp add: step_next_tick st numSteps_def)
  have lay2: "layout (next_tick numSteps LAYOUT_ORDER s1) = 3"
    by (simp add: layout_next_tick st lay numSteps_def LAYOUT_ORDER_def)
  have "points (next_tick numSteps LAYOUT_ORDER s1)
        = map (blend_point (LAYOUT_ORDER ! 3) (LAYOUT_ORDER ! ((3 + 1) mod length LAYOUT_ORDER))
            (pct numSteps 0)) (points s1)"
    using points_next_tick [of numSteps LAYOUT_ORDER s1] by (simp only: st2 lay2)
  then have p2: "points (next_tick numSteps LAYOUT_ORDER s1) = [blend_point GRID WAVE (Fin 0) p0]"
    by (simp add: p1 blend_point_twice LAYOUT_ORDER_def pct_def numSteps_def)
  have l1: "map live (points s1) = [(Fin (1 / 5), Fin (1 / 5))]"
    by (simp add: p1 live_def blend_point_def spec_lerp_def anchors)
  have l2: "map live (points (next_tick numSteps LAYOUT_ORDER s1)) = [(NaN, NaN)]"
    by (simp add: p2 live_def blend_point_def spec_lerp_def anchors)
  show ?thesis
    using st2 l1 l2 by (simp only: Visualization_def s1_def s0_def)
qed

section \<open>Rounding\<close>

lemma round_even_err: "\<bar>of_int (round_even a) - a\<bar> \<le> 1 / 2"
  unfolding round_even_def Let_def by (auto; linarith)

lemma round_even_int [simp]: "round_even (of_int k) = k"
  by (simp add: round_even_def)

lemma rd_0 [simp]: "rd 0 = 0"
  by (simp add: rd_def)

lemma rd_err: "\<bar>rd a - a\<bar> \<le> \<bar>a\<bar> / 2 ^ 53"
proof (cases "a = 0")
  case True
  then show ?thesis by simp
next
  case False
  define k where "k = \<lfloor>log 2 \<bar>a\<bar>\<rfloor>"
  define c :: real where "c = 2 powr of_int (k - 52)"
  have cpos: "0 < c" by (simp add: c_def)
  have "2 powr of_int k \<le> \<bar>a\<bar>"
    using False floor_log_eq_powr_iff [of "\<bar>a\<bar>" 2 k] by (simp add: k_def)
  moreover have "(2::real) powr of_int k = c * 2 ^ 52"
    by (simp add: c_def powr_diff)
  ultimately have lo: "c * 2 ^ 52 \<le> \<bar>a\<bar>" by simp
  have r: "rd a = of_int (round_even (a / c)) * c"
    using False by (simp add: rd_def Let_def k_def c_def)
  have "rd a - a = (of_int (round_even (a / c)) - a / c) * c"
    using cpos by (simp add: r left_diff_distrib)
  then have "\<bar>rd a - a\<bar> = \<bar>of_int (round_even (a / c)) - a / c\<bar> * c"
    using cpos by (simp add: abs_mult)
  also have "\<dots> \<le> 1 / 2 * c"
    using round_even_err [of "a / c"] cpos by (intro mult_right_mono) simp_all
  also have "\<dots> = c * 2 ^ 52 / 2 ^ 53" by simp
  also have "\<dots> \<le> \<bar>a\<bar> / 2 ^ 53"
    using lo by (intro divide_right_mono) simp_all
  finally show ?thesis .
qed

text \<open>Evaluation of a number below \<open>2 ^ 53\<close> whose unit in the last place is \<open>1 / 2 ^ j\<close>.\<close>

lemma rd_down:
  assumes "2 ^ 52 \<le> \<bar>a\<bar> * 2 ^ j" "\<bar>a\<bar> * 2 ^ j < 2 ^ 53"
  shows "rd a = of_int (round_even (a * 2 ^ j)) / 2 ^ j"
proof -
  have a0: "a \<noteq> 0" using assms(1) by auto
  have p: "(2::real) powr (52 - real j) = 2 ^ 52 / 2 ^ j"
    by (simp add: powr_diff powr_realpow)
  have p1: "(2::real) powr (52 - real j + 1) = 2 ^ 53 / 2 ^ j"
    by (simp add: powr_add powr_diff powr_realpow)
  have "\<lfloor>log 2 \<bar>a\<bar>\<rfloor> = 52 - int j"
  proof -
    have "2 powr (52 - real j) \<le> \<bar>a\<bar>"
      using assms(1) by (simp only: p) (simp add: field_simps)
    moreover have "\<bar>a\<bar> < 2 powr (52 - real j + 1)"
      using assms(2) by (simp only: p1) (simp add: field_simps)
    ultimately show ?thesis
      using a0 floor_log_eq_powr_iff [of "\<bar>a\<bar>" 2 "52 - int j"] by simp
  qed
  then have "rd a = of_int (round_even (a / 2 powr (- real j))) * 2 powr (- real j)"
    using a0 by (simp add: rd_def Let_def)
  moreover have "(2::real) powr (- real j) = 1 / 2 ^ j"
    by (simp add: powr_minus powr_realpow inverse_eq_divide)
  ultimately show ?thesis by simp
qed

lemma rd_08: "rd 0.8 = 7205759403792794 / 2 ^ 53"
  by (subst rd_down [of _ 53]) (simp_all add: round_even_def)


lemma rd_16: "rd 1.6 = 3602879701896397 / 2 ^ 51"
  by (subst rd_down [of _ 52]) (simp_all add: round_even_def)

lemma rd_between:
  assumes "0 \<le> a"
  shows "a * (1 - 1 / 2 ^ 53) \<le> rd a" and "rd a \<le> a * (1 + 1 / 2 ^ 53)"
proof -
  have "\<bar>rd a - a\<bar> \<le> a / 2 ^ 53" using rd_err [of a] assms by simp
  then have "a - a / 2 ^ 53 \<le> rd a" and "rd a \<le> a + a / 2 ^ 53" by linarith+
  then show "a * (1 - 1 / 2 ^ 53) \<le> rd a" and "rd a \<le> a * (1 + 1 / 2 ^ 53)"
    by (simp_all add: algebra_simps)
qed

lemma rd_nonneg: "0 \<le> a \<Longrightarrow> 0 \<le> rd a"
proof -
  assume a: "0 \<le> a"
  have "0 \<le> a * (1 - 1 / 2 ^ 53)" using a by (intro mult_nonneg_nonneg) simp_all
  then show ?thesis using rd_between(1) [OF a] by linarith
qed

lemma rd_eq_0_iff [simp]: "rd a = 0 \<longleftrightarrow> a = 0"
proof
  assume "rd a = 0"
  then have "\<bar>a\<bar> \<le> \<bar>a\<bar> / 2 ^ 53" using rd_err [of a] by simp
  then show "a = 0" by (simp add: field_simps)
qed simp

text \<open>A number with at most 53 significant bits is its own rounding.\<close>

lemma rd_repr:
  assumes "\<bar>m\<bar> \<le> 2 ^ 53"
  shows "rd (of_int m * 2 powr of_int j) = of_int m * 2 powr of_int j"
proof (cases "m = 0")
  case True
  then show ?thesis by simp
next
  case False
  define a :: real where "a = of_int m * 2 powr of_int j"
  have a0: "a \<noteq> 0" using False by (simp add: a_def)
  define k where "k = \<lfloor>log 2 \<bar>a\<bar>\<rfloor>"
  define c :: real where "c = 2 powr of_int (k - 52)"
  have cpos: "0 < c" by (simp add: c_def)
  have kb: "2 powr of_int k \<le> \<bar>a\<bar>"
    using a0 floor_log_eq_powr_iff [of "\<bar>a\<bar>" 2 k] by (simp add: k_def)
  have absa: "\<bar>a\<bar> = of_int \<bar>m\<bar> * 2 powr of_int j"
    by (simp add: a_def abs_mult)
  have "real_of_int \<bar>m\<bar> \<le> real_of_int (2 ^ 53)"
    using assms by (simp only: of_int_le_iff)
  then have mr: "real_of_int \<bar>m\<bar> \<le> 2 ^ 53" by simp
  have "\<bar>a\<bar> \<le> 2 ^ 53 * 2 powr of_int j"
    unfolding absa using mr by (intro mult_right_mono) simp_all
  also have "\<dots> = 2 powr (53 + real_of_int j)"
    by (simp add: powr_add)
  finally have "\<bar>a\<bar> \<le> 2 powr (53 + real_of_int j)" .
  with kb have "2 powr real_of_int k \<le> (2::real) powr (53 + real_of_int j)"
    by linarith
  then have "real_of_int k \<le> 53 + real_of_int j" by simp
  then have kle: "k \<le> 53 + j" by linarith
  have ac: "a / c = of_int m * 2 powr of_int (j - k + 52)"
    by (simp add: a_def c_def powr_diff powr_add)
  have "\<exists>K. a / c = of_int K"
  proof (cases "k = 53 + j")
    case True
    then have "(2::real) ^ 53 * 2 powr of_int j \<le> of_int \<bar>m\<bar> * 2 powr of_int j"
      using kb by (simp add: absa powr_add)
    then have "real_of_int (2 ^ 53) \<le> real_of_int \<bar>m\<bar>" by simp
    then have "2 ^ 53 \<le> \<bar>m\<bar>" by (simp only: of_int_le_iff)
    then have mm: "m = 2 ^ 53 \<or> m = - (2 ^ 53)" using assms by linarith
    have h: "a / c = of_int m / 2"
      using True by (simp add: ac powr_minus inverse_eq_divide)
    show ?thesis
    proof (cases "m = 2 ^ 53")
      case True
      then have "a / c = of_int (2 ^ 52)" by (simp add: h)
      then show ?thesis by blast
    next
      case False
      then have "m = - (2 ^ 53)" using mm by simp
      then have "a / c = of_int (- (2 ^ 52))" by (simp add: h)
      then show ?thesis by blast
    qed
  next
    case False
    then have "0 \<le> j - k + 52" using kle by simp
    then obtain t :: nat where t: "j - k + 52 = int t"
      using nonneg_int_cases by blast
    have "a / c = of_int m * 2 ^ t"
      by (simp add: ac t powr_realpow)
    also have "\<dots> = of_int (m * 2 ^ t)" by simp
    finally show ?thesis by blast
  qed
  then obtain K where K: "a / c = of_int K" by blast
  have "rd a = of_int (round_even (a / c)) * c"
    using a0 by (simp add: rd_def Let_def k_def c_def)
  also have "\<dots> = a / c * c" by (simp add: K)
  also have "\<dots> = a" using cpos by simp
  finally show ?thesis by (simp add: a_def)
qed

lemma rd_is_repr: "\<exists>m j. \<bar>m\<bar> \<le> 2 ^ 53 \<and> rd a = of_int m * 2 powr of_int j"
proof (cases "a = 0")
  case True
  then show ?thesis by (intro exI [of _ 0]) simp
next
  case False
  define k where "k = \<lfloor>log 2 \<bar>a\<bar>\<rfloor>"
  define c :: real where "c = 2 powr of_int (k - 52)"
  have cpos: "0 < c" by (simp add: c_def)
  have "\<bar>a\<bar> < 2 powr (of_int k + 1)"
    using False floor_log_eq_powr_iff [of "\<bar>a\<bar>" 2 k] by (simp add: k_def)
  moreover have "(2::real) powr (of_int k + 1) = c * 2 ^ 53"
    by (simp add: c_def powr_diff powr_add)
  ultimately have "\<bar>a / c\<bar> < 2 ^ 53"
    using cpos by (simp add: field_simps)
  then have "\<bar>of_int (round_even (a / c))\<bar> < (2::real) ^ 53 + 1"
    using round_even_err [of "a / c"] by linarith
  then have "real_of_int \<bar>round_even (a / c)\<bar> < real_of_int (2 ^ 53 + 1)"
    by simp
  then have "\<bar>round_even (a / c)\<bar> < 2 ^ 53 + 1"
    by (simp only: of_int_less_iff)
  then have b: "\<bar>round_even (a / c)\<bar> \<le> 2 ^ 53" by simp
  have "rd a = of_int (round_even (a / c)) * 2 powr of_int (k - 52)"
    using False by (simp add: rd_def Let_def k_def c_def)
  then show ?thesis using b by blast
qed

lemma rd_idem [simp]: "rd (rd a) = rd a"
proof -
  obtain m j where "\<bar>m\<bar> \<le> 2 ^ 53" "rd a = of_int m * 2 powr of_int j"
    using rd_is_repr by blast
  then show ?thesis using rd_repr [of m j] by simp
qed

section \<open>The rounded operations\<close>

declare makePoints_loop_fl.simps [simp del]

lemma fl_fin [simp]:
  "fl_add (Fin a) (Fin b) = Fin (rd (a + b))"
  "fl_sub (Fin a) (Fin b) = Fin (rd (a - b))"
  "fl_mul (Fin a) (Fin b) = Fin (rd (a * b))"
  "b \<noteq> 0 \<Longrightarrow> fl_div (Fin a) (Fin b) = Fin (rd (a / b))"
  "0 \<le> a \<Longrightarrow> fl_sqrt (Fin a) = Fin (rd (sqrt a))"
  "fl_sin (Fin a) = Fin (rd (sin a))"
  "fl_cos (Fin a) = Fin (rd (cos a))"
  by (simp_all add: fl_add_def fl_sub_def fl_mul_def fl_div_def fl_sqrt_def fl_sin_def fl_cos_def
      not_less [symmetric])

lemma neg_fin [simp]: "- Fin a = Fin (- a)"
  by (simp add: uminus_jsnum_def)

text \<open>Evaluation of single roundings.\<close>

lemma rd_div_11: "rd (3602879701896397 / 2 ^ 51 / 11) = 5240552293667487 / 2 ^ 55"
  by (subst rd_down [of _ 55]) (simp_all add: round_even_def)

lemma rd_mul_11: "rd (5240552293667487 / 2 ^ 55 * 11) = 7205759403792795 / 2 ^ 52"
  by (subst rd_down [of _ 52]) (simp_all add: round_even_def)

lemma rd_y_122: "rd (- (7205759403792794 / 2 ^ 53) + 7205759403792795 / 2 ^ 52) = 1801439850948199 / 2 ^ 51"
  by (subst rd_down [of _ 53]) (simp_all add: round_even_def)

lemma rd_neg_08: "rd (- (7205759403792794 / 2 ^ 53)) = - (7205759403792794 / 2 ^ 53)"
  by (subst rd_down [of _ 53]) (simp_all add: round_even_def)

lemma rd_11: "rd 11 = 11"
  by (subst rd_down [of _ 49]) (simp_all add: round_even_def)

section \<open>The grid in double arithmetic\<close>

lemma rowLength_fl_122: "Math_round (fl_sqrt (Fin 122)) = Fin 11"
proof -
  have lo: "11 < sqrt 122" by (rule real_less_rsqrt) simp
  have hi: "sqrt 122 < 111 / 10" by (rule real_less_lsqrt) (simp_all add: power2_eq_square)
  have p: "0 \<le> sqrt (122::real)" by simp
  have "sqrt 122 * (1 - 1 / 2 ^ 53) \<le> rd (sqrt 122)" and "rd (sqrt 122) \<le> sqrt 122 * (1 + 1 / 2 ^ 53)"
    using rd_between [OF p] by simp_all
  then have "21 / 2 \<le> rd (sqrt 122)" and "rd (sqrt 122) < 23 / 2"
    using lo hi by (simp_all add: algebra_simps)
  then have "\<lfloor>rd (sqrt 122) + 1 / 2\<rfloor> = 11"
    by (intro floor_unique) simp_all
  then show ?thesis by simp
qed

text \<open>
  The claim as the specification states it has both coordinates within \<open>[-0.8, 0.8]\<close> for
  every count and index.  For the count 122 the row length is 11, and the last point, of
  index 121, gets \<open>y = -0.8 + 1.6 / 11 * 11\<close>.  In doubles \<open>1.6 / 11 * 11\<close> is
  \<open>1.6000000000000003\<close> and \<open>y\<close> is \<open>1801439850948199 / 2 ^ 51 = 0.8000000000000003\<close>, above
  \<open>0.8\<close>.
\<close>

theorem genGrid_fl_exceeds:
  "genGrid_fl (Fin 122) (Fin 121)
     = [Fin (- (3602879701896397 / 2 ^ 52)), Fin (1801439850948199 / 2 ^ 51)]
   \<and> (4 / 5 :: real) < 1801439850948199 / 2 ^ 51"
proof -
  have m: "Fin 121 mod Fin 11 = Fin 0"
    by (simp add: fin_mod trunc_def)
  have f: "Math_floor (fl_div (Fin 121) (Fin 11)) = Fin 11"
    by (simp add: rd_11)
  have c8: "fl 0.8 = Fin (7205759403792794 / 2 ^ 53)"
    unfolding fl_def by (simp only: rd_08)
  have c16: "fl 1.6 = Fin (3602879701896397 / 2 ^ 51)"
    unfolding fl_def by (simp only: rd_16)
  have n11: "(11::real) \<noteq> 0" by simp
  have q: "fl_div (fl 1.6) (Fin 11) = Fin (5240552293667487 / 2 ^ 55)"
    by (simp only: c16 fl_fin(4) [OF n11] rd_div_11)
  have t: "fl_mul (Fin (5240552293667487 / 2 ^ 55)) (Fin 11) = Fin (7205759403792795 / 2 ^ 52)"
    by (simp only: fl_fin(3) rd_mul_11)
  have yv: "fl_add (- fl 0.8) (Fin (7205759403792795 / 2 ^ 52)) = Fin (1801439850948199 / 2 ^ 51)"
    by (simp only: c8 neg_fin fl_fin(1) rd_y_122)
  have z: "fl_mul (Fin (5240552293667487 / 2 ^ 55)) (Fin 0) = Fin 0"
    by simp
  have xv: "fl_add (- fl 0.8) (Fin 0) = Fin (- (7205759403792794 / 2 ^ 53))"
    by (simp only: c8 neg_fin fl_fin(1) add_0_right rd_neg_08)
  have "genGrid_fl (Fin 122) (Fin 121)
     = [Fin (- (7205759403792794 / 2 ^ 53)), Fin (1801439850948199 / 2 ^ 51)]"
    by (simp only: genGrid_fl_def Let_def rowLength_fl_122 m f q t z yv xv)
  then show ?thesis by simp
qed


text \<open>The row length in double arithmetic, for counts up to \<open>2 ^ 32\<close>.\<close>

lemma rowLength_fl:
  assumes "1 \<le> n" "n \<le> 2 ^ 32"
  shows "\<exists>r. Math_round (fl_sqrt (Fin (real n))) = Fin (real r) \<and> 1 \<le> r \<and> r \<le> 65536
           \<and> n \<le> r * r + r"
proof -
  define s where "s = sqrt (real n)"
  define k where "k = \<lfloor>rd s + 1 / 2\<rfloor>"
  have s1: "1 \<le> s" using assms(1) by (simp add: s_def)
  have "real n \<le> 65536\<^sup>2" using assms(2) by (simp add: of_nat_le_iff [symmetric] del: of_nat_le_iff)
  then have s2: "s \<le> 65536"
    unfolding s_def by (intro real_le_lsqrt) simp_all
  have s0: "0 \<le> s" using s1 by simp
  have lo: "s * (1 - 1 / 2 ^ 53) \<le> rd s" and hi: "rd s \<le> s * (1 + 1 / 2 ^ 53)"
    using rd_between [OF s0] by simp_all
  have e: "s / 2 ^ 53 \<le> 1 / 2 ^ 37" using s2 by simp
  have lo': "s - 1 / 2 ^ 37 \<le> rd s" using lo e by (simp add: algebra_simps)
  have hi': "rd s \<le> s + 1 / 2 ^ 37" using hi e by (simp add: algebra_simps)
  have "1 \<le> rd s + 1 / 2" using lo' s1 by simp
  then have k1: "1 \<le> k" unfolding k_def by linarith
  have "rd s + 1 / 2 < 65537" using hi' s2 by simp
  then have k2: "k \<le> 65536" unfolding k_def by linarith
  define r where "r = nat k"
  have kr: "k = int r" using k1 by (simp add: r_def)
  have r1: "1 \<le> r" and r2: "r \<le> 65536" using k1 k2 by (simp_all add: r_def)
  have "rd s + 1 / 2 < real_of_int k + 1" unfolding k_def by linarith
  then have up: "s < real r + 1 / 2 + 1 / 2 ^ 37" using lo' by (simp add: kr)
  have rr: "real r \<le> 65536" using r2 by simp
  define e :: real where "e = 1 / 2 ^ 37"
  have e0: "0 \<le> e" by (simp add: e_def)
  have "s\<^sup>2 < (real r + 1 / 2 + e)\<^sup>2"
    using up s0 by (intro power_strict_mono) (simp_all add: e_def)
  also have "\<dots> = real r * real r + real r + 1 / 4 + (2 * real r + 1) * e + e * e"
    by (simp add: power2_eq_square algebra_simps)
  also have "\<dots> \<le> real r * real r + real r + 1 / 4 + (2 * 65536 + 1) * e + e * e"
    using rr e0 by (intro add_mono mult_right_mono) simp_all
  also have "\<dots> < real r * real r + real r + 1" by (simp add: e_def)
  finally have "real n < real (r * r + r + 1)"
    using assms(1) by (simp add: s_def)
  then have "n < r * r + r + 1" by (simp only: of_nat_less_iff)
  then have nle: "n \<le> r * r + r" by simp
  have "Math_round (fl_sqrt (Fin (real n))) = Fin (real r)"
    by (simp add: s_def [symmetric] k_def [symmetric] kr)
  then show ?thesis using r1 r2 nle by blast
qed

text \<open>A grid coordinate whose integer factor is between 0 and the row length.\<close>

lemma grid_coordinate_fl:
  assumes "1 \<le> r" "0 \<le> k" "k \<le> r"
  shows "- (4 / 5) - 1 / 10 ^ 15 \<le> rd (- rd 0.8 + rd (rd (rd 1.6 / r) * k))"
    and "rd (- rd 0.8 + rd (rd (rd 1.6 / r) * k)) \<le> 4 / 5 + 1 / 10 ^ 15"
proof -
  define u :: real where "u = 1 / 2 ^ 53"
  define c16 :: real where "c16 = 3602879701896397 / 2 ^ 51"
  define c8 :: real where "c8 = 7205759403792794 / 2 ^ 53"
  define q where "q = rd (c16 / r)"
  define t where "t = rd (q * k)"
  define z where "z = - c8 + t"
  have r0: "0 < r" using assms(1) by simp
  have q0: "0 \<le> q" unfolding q_def by (rule rd_nonneg) (use r0 in \<open>simp add: c16_def\<close>)
  have "q \<le> c16 / r * (1 + u)"
    unfolding q_def u_def by (rule rd_between(2)) (use r0 in \<open>simp add: c16_def\<close>)
  then have "q * k \<le> c16 / r * (1 + u) * k"
    using assms(2) by (rule mult_right_mono)
  also have "\<dots> = c16 * (1 + u) * (k / r)" by simp
  also have "\<dots> \<le> c16 * (1 + u) * 1"
    using assms(3) r0 by (intro mult_left_mono) (simp_all add: c16_def u_def)
  finally have qk: "q * k \<le> c16 * (1 + u)" by simp
  have qk0: "0 \<le> q * k" using q0 assms(2) by simp
  have t0: "0 \<le> t" unfolding t_def by (rule rd_nonneg [OF qk0])
  have "t \<le> q * k * (1 + u)"
    unfolding t_def u_def by (rule rd_between(2) [OF qk0])
  also have "\<dots> \<le> c16 * (1 + u) * (1 + u)"
    using qk by (intro mult_right_mono) (simp_all add: u_def)
  finally have t1: "t \<le> c16 * (1 + u) * (1 + u)" .
  have zl: "- c8 \<le> z" using t0 by (simp add: z_def)
  have zu: "z \<le> - c8 + c16 * (1 + u) * (1 + u)" using t1 by (simp add: z_def)
  have "\<bar>z\<bar> \<le> 1"
    using zl zu by (simp add: abs_le_iff c8_def c16_def u_def)
  then have "\<bar>z\<bar> / 2 ^ 53 \<le> u" by (simp add: u_def)
  then have "\<bar>rd z - z\<bar> \<le> u" using rd_err [of z] by linarith
  then have "z - u \<le> rd z" and "rd z \<le> z + u" by linarith+
  then have a: "- c8 - u \<le> rd z" and b: "rd z \<le> - c8 + c16 * (1 + u) * (1 + u) + u"
    using zl zu by linarith+
  have e: "rd (- rd 0.8 + rd (rd (rd 1.6 / r) * k)) = rd z"
    by (simp only: rd_08 rd_16 z_def t_def q_def c8_def c16_def)
  have "- (4 / 5) - 1 / 10 ^ 15 \<le> - c8 - u" by (simp add: c8_def u_def)
  then show "- (4 / 5) - 1 / 10 ^ 15 \<le> rd (- rd 0.8 + rd (rd (rd 1.6 / r) * k))"
    using a by (simp only: e)
  have "- c8 + c16 * (1 + u) * (1 + u) + u \<le> 4 / 5 + 1 / 10 ^ 15"
    by (simp add: c8_def c16_def u_def)
  then show "rd (- rd 0.8 + rd (rd (rd 1.6 / r) * k)) \<le> 4 / 5 + 1 / 10 ^ 15"
    using b by (simp only: e)
qed


lemma floor_quotient_fl:
  assumes "1 \<le> r" "r \<le> 65536" "i < r * r + r"
  shows "0 \<le> \<lfloor>rd (real i / real r)\<rfloor>" and "\<lfloor>rd (real i / real r)\<rfloor> \<le> int r"
proof -
  define u :: real where "u = 1 / 2 ^ 53"
  define R where "R = real r"
  define I where "I = real i"
  have R1: "1 \<le> R" and R2: "R \<le> 65536" using assms(1,2) by (simp_all add: R_def)
  have "i + 1 \<le> r * r + r" using assms(3) by simp
  then have "real (i + 1) \<le> real (r * r + r)" by (simp only: of_nat_le_iff)
  then have I1: "I \<le> R * R + R - 1" by (simp add: I_def R_def)
  have I0: "0 \<le> I" by (simp add: I_def)
  have q0: "0 \<le> I / R" using I0 R1 by simp
  have "0 \<le> rd (I / R)" by (rule rd_nonneg [OF q0])
  then show "0 \<le> \<lfloor>rd (real i / real r)\<rfloor>" by (simp add: I_def R_def)
  have "R * R \<le> 65536 * 65536" using R1 R2 by (intro mult_mono) simp_all
  then have "I \<le> 65536 * 65536 + 65536" using I1 R2 by linarith
  then have Iu: "I * u < 1" by (simp add: u_def)
  have "rd (I / R) \<le> I / R * (1 + u)"
    unfolding u_def by (rule rd_between(2) [OF q0])
  also have "\<dots> = (I + I * u) / R" by (simp add: algebra_simps add_divide_distrib)
  also have "\<dots> < (R * R + R) / R"
    using I1 Iu R1 by (intro divide_strict_right_mono) simp_all
  also have "\<dots> = R + 1" using R1 by (simp add: field_simps)
  finally have "rd (I / R) < real_of_int (int r + 1)" by (simp add: R_def)
  then have "\<lfloor>rd (I / R)\<rfloor> < int r + 1" by (simp only: floor_less_iff)
  then show "\<lfloor>rd (real i / real r)\<rfloor> \<le> int r" by (simp add: I_def R_def)
qed

text \<open>
  Claim C10, as the code has it.  For every count \<open>n\<close> from 1 to \<open>2 ^ 32\<close> and every index
  \<open>i < n\<close>, the row length is a natural number \<open>r\<close> with \<open>floor((n - 1) / r) \<le> r\<close>, and
  both coordinates that the grid generator computes in doubles are numbers within
  \<open>10 ^ -15\<close> of the range \<open>[-0.8, 0.8]\<close>.
\<close>

theorem genGrid_fl_bounded:
  assumes "1 \<le> n" "n \<le> 2 ^ 32" "i < n"
  shows "\<exists>r a b. Math_round (fl_sqrt (Fin (real n))) = Fin (real r) \<and> (n - 1) div r \<le> r
           \<and> genGrid_fl (Fin (real n)) (Fin (real i)) = [Fin a, Fin b]
           \<and> - (4 / 5) - 1 / 10 ^ 15 \<le> a \<and> a \<le> 4 / 5 + 1 / 10 ^ 15
           \<and> - (4 / 5) - 1 / 10 ^ 15 \<le> b \<and> b \<le> 4 / 5 + 1 / 10 ^ 15"
proof -
  obtain r where r: "Math_round (fl_sqrt (Fin (real n))) = Fin (real r)" "1 \<le> r" "r \<le> 65536"
      "n \<le> r * r + r"
    using rowLength_fl [OF assms(1,2)] by blast
  have rpos: "0 < r" using r(2) by simp
  have R1: "1 \<le> real r" using r(2) by simp
  have lt: "n - 1 < (r + 1) * r" using r(4) assms(1) by (simp add: algebra_simps)
  have "(n - 1) div r < r + 1"
    by (rule less_mult_imp_div_less [OF lt])
  then have d1: "(n - 1) div r \<le> r" by simp
  have ir: "i < r * r + r" using assms(3) r(4) by simp
  define k1 where "k1 = real (i mod r)"
  define k2 where "k2 = real_of_int \<lfloor>rd (real i / real r)\<rfloor>"
  have k1b: "0 \<le> k1" "k1 \<le> real r"
    using rpos by (simp_all add: k1_def less_imp_le)
  have k2b: "0 \<le> k2" "k2 \<le> real r"
    using floor_quotient_fl [OF r(2,3) ir] by (simp_all add: k2_def)
  define a where "a = rd (- rd 0.8 + rd (rd (rd 1.6 / real r) * k1))"
  define b where "b = rd (- rd 0.8 + rd (rd (rd 1.6 / real r) * k2))"
  have rn: "real r \<noteq> 0" using rpos by simp
  have md: "Fin (real i) mod Fin (real r) = Fin k1"
    unfolding k1_def by (rule fin_mod_nat [OF rpos])
  have fd: "Math_floor (Fin (rd (real i / real r))) = Fin k2"
    by (simp only: Math_floor.simps k2_def)
  have "genGrid_fl (Fin (real n)) (Fin (real i)) = [Fin a, Fin b]"
    by (simp only: genGrid_fl_def Let_def r(1) md fd fl_def fl_fin(4) [OF rn] fl_fin(1,3) neg_fin
        a_def b_def)
  moreover have "- (4 / 5) - 1 / 10 ^ 15 \<le> a \<and> a \<le> 4 / 5 + 1 / 10 ^ 15"
    unfolding a_def using grid_coordinate_fl [OF R1 k1b] by blast
  moreover have "- (4 / 5) - 1 / 10 ^ 15 \<le> b \<and> b \<le> 4 / 5 + 1 / 10 ^ 15"
    unfolding b_def using grid_coordinate_fl [OF R1 k2b] by blast
  ultimately show ?thesis using r(1) d1 by blast
qed

theorem genGrid_fl_bounded_witness:
  "\<exists>r a b. Math_round (fl_sqrt (Fin 10)) = Fin (real r) \<and> 9 div r \<le> r
           \<and> genGrid_fl (Fin 10) (Fin 9) = [Fin a, Fin b]
           \<and> - (4 / 5) - 1 / 10 ^ 15 \<le> a \<and> a \<le> 4 / 5 + 1 / 10 ^ 15
           \<and> - (4 / 5) - 1 / 10 ^ 15 \<le> b \<and> b \<le> 4 / 5 + 1 / 10 ^ 15"
  using genGrid_fl_bounded [of 10 9] by simp

section \<open>The tick in double arithmetic\<close>

lemma movePoint_blend_fl:
  "movePoint_fl b (xForLayout cur) (xForLayout nxt) (yForLayout cur) (yForLayout nxt) pt
   = blend_point_fl cur nxt b pt"
  by (cases cur; cases nxt)
     (simp_all add: movePoint_fl_def lerp_fl_def getProp_def blend_point_fl_def lerp_num_fl_def
        Let_def)

lemma blend_point_fl_forget: "blend_point_fl cur nxt b (forget_live pt) = blend_point_fl cur nxt b pt"
  by (cases cur; cases nxt) (simp_all add: blend_point_fl_def forget_live_def)

lemma forget_blend_point_fl: "forget_live (blend_point_fl cur nxt b pt) = forget_live pt"
  by (simp add: blend_point_fl_def forget_live_def)

lemma map_blend_point_fl_forget:
  assumes "map forget_live ps = map forget_live qs"
  shows "map (blend_point_fl c n b) ps = map (blend_point_fl c n b) qs"
proof -
  have "map (blend_point_fl c n b) ps = map (blend_point_fl c n b) (map forget_live ps)"
    by (simp add: blend_point_fl_forget)
  also have "\<dots> = map (blend_point_fl c n b) (map forget_live qs)"
    by (simp only: assms)
  also have "\<dots> = map (blend_point_fl c n b) qs"
    by (simp add: blend_point_fl_forget)
  finally show ?thesis .
qed

lemma next_tick_fl_eq:
  "next_tick_fl N order s =
     (let st = (step s + 1) mod N;
          lay = (if st = 0 then (layout s + 1) mod length order else layout s)
      in \<lparr>layout = lay, step = st,
          points = map (blend_point_fl (order ! lay) (order ! ((lay + 1) mod length order))
                         (pct_fl N st)) (points s)\<rparr>)"
  by (simp add: next_tick_fl_def Let_def movePoint_blend_fl cong: map_cong)

lemma step_next_tick_fl: "step (next_tick_fl N order s) = (step s + 1) mod N"
  by (simp add: next_tick_fl_eq Let_def)

lemma layout_next_tick_fl:
  "layout (next_tick_fl N order s)
   = (if (step s + 1) mod N = 0 then (layout s + 1) mod length order else layout s)"
  by (simp add: next_tick_fl_eq Let_def)

lemma points_next_tick_fl:
  "points (next_tick_fl N order s)
   = map (blend_point_fl (order ! layout (next_tick_fl N order s))
            (order ! ((layout (next_tick_fl N order s) + 1) mod length order))
            (pct_fl N (step (next_tick_fl N order s)))) (points s)"
  by (simp add: next_tick_fl_eq Let_def)

lemma frames_fl_next_tick:
  "frames_fl N order ts (next_tick_fl N order s) = next_tick_fl N order (frames_fl N order ts s)"
  by (induction ts arbitrary: s) simp_all

text \<open>The clock does not depend on the arithmetic.\<close>

lemma frames_fl_same_clock:
  assumes "step s = step s'" "layout s = layout s'"
  shows "step (frames_fl N order ts s) = step (frames N order ts s')
       \<and> layout (frames_fl N order ts s) = layout (frames N order ts s')"
  using assms
proof (induction ts arbitrary: s s')
  case Nil
  then show ?case by simp
next
  case (Cons t ts)
  have "step (next_tick_fl N order s) = step (next_tick N order s')"
    and "layout (next_tick_fl N order s) = layout (next_tick N order s')"
    using Cons.prems by (simp_all add: step_next_tick_fl step_next_tick layout_next_tick_fl
        layout_next_tick)
  from Cons.IH [OF this] show ?case by simp
qed

lemma frames_fl_clock:
  assumes "step s < N" "layout s < length order"
  shows "step (frames_fl N order ts s) = (step s + length ts) mod N
       \<and> layout (frames_fl N order ts s) = (layout s + (step s + length ts) div N) mod length order"
  using frames_fl_same_clock [of s s N order ts] frames_clock [OF assms, of ts] by simp

lemma forget_frames_fl:
  "map forget_live (points (frames_fl N order ts s)) = map forget_live (points s)"
proof (induction ts arbitrary: s)
  case Nil
  then show ?case by simp
next
  case (Cons t ts)
  have "map forget_live (points (next_tick_fl N order s)) = map forget_live (points s)"
    by (simp add: next_tick_fl_eq Let_def forget_blend_point_fl)
  then show ?case using Cons.IH [of "next_tick_fl N order s"] by simp
qed

lemma points_after_ticks_fl:
  fixes ts :: "real list" and order :: "Layout list"
  assumes "step s < N" "layout s < length order"
  defines "st \<equiv> (step s + (1 + length ts)) mod N"
    and "lay \<equiv> (layout s + (step s + (1 + length ts)) div N) mod length order"
  shows "step (frames_fl N order ts (next_tick_fl N order s)) = st"
    and "layout (frames_fl N order ts (next_tick_fl N order s)) = lay"
    and "points (frames_fl N order ts (next_tick_fl N order s))
         = map (blend_point_fl (order ! lay) (order ! ((lay + 1) mod length order)) (pct_fl N st))
             (points s)"
proof -
  let ?s2 = "frames_fl N order ts (next_tick_fl N order s)"
  have clock: "step ?s2 = st \<and> layout ?s2 = lay"
    using frames_fl_clock [OF assms(1,2), of "0 # ts"] by (simp add: st_def lay_def)
  show "step ?s2 = st" and "layout ?s2 = lay" using clock by simp_all
  have eq: "?s2 = next_tick_fl N order (frames_fl N order ts s)" by (rule frames_fl_next_tick)
  have "points ?s2 = map (blend_point_fl (order ! lay) (order ! ((lay + 1) mod length order))
          (pct_fl N st)) (points (frames_fl N order ts s))"
    using points_next_tick_fl [of N order "frames_fl N order ts s"] clock
    by (simp only: eq [symmetric])
  also have "\<dots> = map (blend_point_fl (order ! lay) (order ! ((lay + 1) mod length order))
          (pct_fl N st)) (points s)"
    by (rule map_blend_point_fl_forget) (rule forget_frames_fl)
  finally show "points ?s2
         = map (blend_point_fl (order ! lay) (order ! ((lay + 1) mod length order)) (pct_fl N st))
             (points s)" .
qed

lemma rd_08_pos: "0 < rd 0.8"
  by (simp only: rd_08) simp

lemma pct_fl_0: "0 < N \<Longrightarrow> pct_fl N 0 = Fin 0"
proof -
  assume N: "0 < N"
  have "real N * rd 0.8 \<noteq> 0" using N rd_08_pos by simp
  then have "rd (real N * rd 0.8) \<noteq> 0" by simp
  then show ?thesis by (simp add: pct_fl_def fl_def)
qed

lemma rd_5_08: "rd (5 * (7205759403792794 / 2 ^ 53)) = 4"
  by (subst rd_down [of _ 50]) (simp_all add: round_even_def)

lemma rd_1: "rd 1 = 1"
  by (subst rd_down [of _ 52]) (simp_all add: round_even_def)

lemma pct_fl_last:
  assumes "5 \<le> N"
  shows "pct_fl N (N - 1) = Fin 1"
proof (cases "N = 5")
  case True
  have "rd (5 * rd 0.8) = 4" by (simp only: rd_08 rd_5_08)
  then show ?thesis using rd_1 by (simp add: True pct_fl_def fl_def)
next
  case False
  then have N6: "6 \<le> N" using assms by simp
  define u :: real where "u = 1 / 2 ^ 53"
  define c8 :: real where "c8 = 7205759403792794 / 2 ^ 53"
  define d where "d = rd (real N * c8)"
  have c8p: "0 < c8" by (simp add: c8_def)
  have n0: "0 \<le> real N * c8" using c8p by simp
  have "real N * c8 \<noteq> 0" using N6 c8p by simp
  then have dn: "d \<noteq> 0" by (simp add: d_def)
  have "0 \<le> d" unfolding d_def by (rule rd_nonneg [OF n0])
  then have dp: "0 < d" using dn by simp
  have "d \<le> real N * c8 * (1 + u)"
    unfolding d_def u_def by (rule rd_between(2) [OF n0])
  also have "\<dots> = real N * (c8 * (1 + u))" by simp
  also have "\<dots> \<le> real N * (81 / 100 * (1 - u))"
    by (intro mult_left_mono) (simp_all add: c8_def u_def)
  also have "\<dots> \<le> (real N - 1) * (1 - u)"
  proof -
    have "real N * (81 / 100) \<le> real N - 1" using N6 by simp
    then have "real N * (81 / 100) * (1 - u) \<le> (real N - 1) * (1 - u)"
      by (intro mult_right_mono) (simp_all add: u_def)
    then show ?thesis by (simp add: algebra_simps)
  qed
  finally have dle: "d \<le> (real N - 1) * (1 - u)" .
  define q where "q = (real N - 1) / d"
  have q0: "0 \<le> q" using dp N6 by (simp add: q_def)
  have "1 \<le> q * (1 - u)"
    using dle dp by (simp add: q_def field_simps)
  also have "\<dots> \<le> rd q"
    unfolding u_def by (rule rd_between(1) [OF q0])
  finally have "1 \<le> rd q" .
  moreover have "pct_fl N (N - 1) = Math_min (Fin 1) (Fin (rd q))"
  proof -
    have c8e: "rd 0.8 = c8" by (simp only: rd_08 c8_def)
    have m: "fl_mul (Fin (real N)) (fl 0.8) = Fin d"
      by (simp only: fl_def fl_fin(3) c8e d_def)
    have r: "real (N - 1) = real N - 1" using N6 by (simp add: of_nat_diff)
    show ?thesis
      by (simp only: pct_fl_def m fl_fin(4) [OF dn] r q_def)
  qed
  ultimately show ?thesis by (simp add: min_def)
qed

lemma is_double_iff: "is_double a \<longleftrightarrow> (\<exists>r. a = Fin r \<and> rd r = r)"
  by (cases a) simp_all

lemma is_double_rnd_fin [simp]: "is_double (Fin (rd a))"
  by simp

lemma makePoints_loop_fl_eq:
  "makePoints_loop_fl cm win count i acc = acc @ map (makePoint_fl cm win count) [i..<count]"
proof (induction cm win count i acc rule: makePoints_loop_fl.induct)
  case (1 cm win count i acc)
  show ?case
  proof (cases "i < count")
    case True
    then show ?thesis
      using "1.IH" by (subst makePoints_loop_fl.simps) (simp add: upt_conv_Cons)
  next
    case False
    then show ?thesis by (subst makePoints_loop_fl.simps) simp
  qed
qed

lemma makePoints_fl_eq: "makePoints_fl cm win count = map (makePoint_fl cm win count) [0..<count]"
  by (simp add: makePoints_fl_def makePoints_loop_fl_eq)

lemma project_fl_fin:
  "\<exists>c d. project_fl \<lparr>innerWidth = Fin w, innerHeight = Fin h\<rparr> [Fin a, Fin b]
         = [Fin (rd c), Fin (rd d)]"
proof -
  have "project_fl \<lparr>innerWidth = Fin w, innerHeight = Fin h\<rparr> [Fin a, Fin b]
        = [Fin (rd (rd (a * min (rd (h / 2)) (rd (w / 2))) + rd (w / 2))),
           Fin (rd (rd (b * min (rd (h / 2)) (rd (w / 2))) + rd (h / 2)))]"
    by (simp add: project_fl_def translate_fl_def scale_fl_def elem_def upt_rec [of 0]
        upt_rec [of 1])
  then show ?thesis by blast
qed

lemma theta_fl_fin: "\<exists>c. theta_fl = Fin c"
  by (simp add: theta_fl_def fl_def)

lemma genPhyllotaxis_fl_fin:
  assumes "0 < n"
  shows "\<exists>a b. genPhyllotaxis_fl (Fin (real n)) (Fin (real i)) = [Fin a, Fin b]"
proof -
  obtain c where c: "theta_fl = Fin c" using theta_fl_fin by blast
  have n0: "real n \<noteq> 0" using assms by simp
  have "0 \<le> real i / real n" by simp
  then have "0 \<le> rd (real i / real n)" by (rule rd_nonneg)
  then show ?thesis
    using n0 by (simp add: genPhyllotaxis_fl_def Let_def c)
qed

lemma genGrid_fl_fin:
  assumes "1 \<le> n"
  shows "\<exists>a b. genGrid_fl (Fin (real n)) (Fin (real i)) = [Fin a, Fin b]"
proof -
  define s where "s = sqrt (real n)"
  define k where "k = \<lfloor>rd s + 1 / 2\<rfloor>"
  have s1: "1 \<le> s" using assms by (simp add: s_def)
  then have s0: "0 \<le> s" by simp
  have "s * (1 - 1 / 2 ^ 53) \<le> rd s" by (rule rd_between(1) [OF s0])
  moreover have "1 * (1 - 1 / 2 ^ 53) \<le> s * (1 - 1 / 2 ^ 53)"
    using s1 by (intro mult_right_mono) simp_all
  ultimately have "1 \<le> rd s + 1 / 2" by simp
  then have k1: "1 \<le> k" unfolding k_def by linarith
  define r where "r = nat k"
  have kr: "k = int r" and rpos: "0 < r" using k1 by (simp_all add: r_def)
  have rl: "Math_round (fl_sqrt (Fin (real n))) = Fin (real r)"
    by (simp add: s_def [symmetric] k_def [symmetric] kr)
  have rn: "real r \<noteq> 0" using rpos by simp
  have "genGrid_fl (Fin (real n)) (Fin (real i))
        = [Fin (rd (- rd 0.8 + rd (rd (rd 1.6 / real r) * real (i mod r)))),
           Fin (rd (- rd 0.8 + rd (rd (rd 1.6 / real r) * real_of_int \<lfloor>rd (real i / real r)\<rfloor>)))]"
    by (simp only: genGrid_fl_def Let_def rl fin_mod_nat [OF rpos] fl_def fl_fin(4) [OF rn]
        fl_fin(1,3) neg_fin Math_floor.simps)
  then show ?thesis by blast
qed

lemma genWave_fl_fin:
  assumes "2 \<le> n"
  shows "\<exists>a b. genWave_fl (Fin (real n)) (Fin (real i)) = [Fin a, Fin b]"
proof -
  have "real n - 1 \<noteq> 0" using assms by simp
  then have "rd (real n - 1) \<noteq> 0" by simp
  then show ?thesis
    by (simp add: genWave_fl_def Let_def fl_def)
qed

lemma genSpiral_fl_fin:
  assumes "2 \<le> n"
  shows "\<exists>a b. genSpiral_fl (Fin (real n)) (Fin (real i)) = [Fin a, Fin b]"
proof -
  have p: "0 \<le> real n - 1" and "real n - 1 \<noteq> 0" using assms by simp_all
  then have dn: "rd (real n - 1) \<noteq> 0" by simp
  have "0 \<le> rd (real n - 1)" by (rule rd_nonneg [OF p])
  then have "0 \<le> real i / rd (real n - 1)" by simp
  then have "0 \<le> rd (real i / rd (real n - 1))" by (rule rd_nonneg)
  then show ?thesis
    using dn by (simp add: genSpiral_fl_def Let_def fl_def)
qed

lemma makePoint_fl_double:
  assumes "2 \<le> count"
  shows "double_anchors (makePoint_fl cm \<lparr>innerWidth = Fin w, innerHeight = Fin h\<rparr> count i)"
proof -
  let ?W = "\<lparr>innerWidth = Fin w, innerHeight = Fin h\<rparr>"
  obtain a1 b1 where g: "genGrid_fl (Fin (real count)) (Fin (real i)) = [Fin a1, Fin b1]"
    using genGrid_fl_fin [of count i] assms by auto
  obtain a2 b2 where wv: "genWave_fl (Fin (real count)) (Fin (real i)) = [Fin a2, Fin b2]"
    using genWave_fl_fin [OF assms, of i] by blast
  obtain a3 b3 where sp: "genSpiral_fl (Fin (real count)) (Fin (real i)) = [Fin a3, Fin b3]"
    using genSpiral_fl_fin [OF assms, of i] by blast
  obtain a4 b4 where ph: "genPhyllotaxis_fl (Fin (real count)) (Fin (real i)) = [Fin a4, Fin b4]"
    using genPhyllotaxis_fl_fin [of count i] assms by auto
  obtain c1 d1 where p1: "project_fl ?W [Fin a1, Fin b1] = [Fin (rd c1), Fin (rd d1)]"
    using project_fl_fin by blast
  obtain c2 d2 where p2: "project_fl ?W [Fin a2, Fin b2] = [Fin (rd c2), Fin (rd d2)]"
    using project_fl_fin by blast
  obtain c3 d3 where p3: "project_fl ?W [Fin a3, Fin b3] = [Fin (rd c3), Fin (rd d3)]"
    using project_fl_fin by blast
  obtain c4 d4 where p4: "project_fl ?W [Fin a4, Fin b4] = [Fin (rd c4), Fin (rd d4)]"
    using project_fl_fin by blast
  show ?thesis
    by (simp add: double_anchors_def makePoint_fl_def findAnchors_fl_def Let_def g wv sp ph
        p1 p2 p3 p4 elem_def)
qed

lemma double_anchors_blend_point_fl:
  "double_anchors (blend_point_fl cur nxt b pt) = double_anchors pt"
  by (simp add: double_anchors_def blend_point_fl_def)

lemma double_anchors_initial_fl:
  "2 \<le> count \<Longrightarrow>
   list_all double_anchors
     (points (initial_fl cm \<lparr>innerWidth = Fin w, innerHeight = Fin h\<rparr> count))"
  by (simp add: initial_fl_def makePoints_fl_eq list_all_iff makePoint_fl_double)

lemma anchor_double:
  "double_anchors pt \<Longrightarrow> is_double (fst (anchor k pt)) \<and> is_double (snd (anchor k pt))"
  by (cases k) (simp_all add: double_anchors_def)

lemma anchor_blend_point_fl [simp]: "anchor k (blend_point_fl cur nxt b pt) = anchor k pt"
  by (cases k) (simp_all add: blend_point_fl_def)

text \<open>With weight 0 the interpolation returns its start; with weight 1 it returns its end up to
  two roundings.\<close>

lemma lerp_num_fl_0:
  assumes "is_double a" "is_double b"
  shows "lerp_num_fl a b (Fin 0) = a"
  using assms by (auto simp add: is_double_iff lerp_num_fl_def)

lemma lerp_num_fl_1:
  assumes "is_double a" "is_double b"
  shows "within_rounding a b (lerp_num_fl a b (Fin 1))"
proof -
  obtain a' b' where a: "a = Fin a'" and b: "b = Fin b'"
    using assms by (auto simp add: is_double_iff)
  define u :: real where "u = 1 / 2 ^ 53"
  define d where "d = rd (b' - a')"
  define v where "v = rd (a' + d)"
  have l: "lerp_num_fl (Fin a') (Fin b') (Fin 1) = Fin v"
    by (simp add: lerp_num_fl_def v_def d_def)
  have e1: "\<bar>d - (b' - a')\<bar> \<le> \<bar>b' - a'\<bar> * u"
    using rd_err [of "b' - a'"] by (simp add: d_def u_def)
  have e2: "\<bar>v - (a' + d)\<bar> \<le> \<bar>a' + d\<bar> * u"
    using rd_err [of "a' + d"] by (simp add: v_def u_def)
  have ba: "\<bar>b' - a'\<bar> \<le> \<bar>a'\<bar> + \<bar>b'\<bar>" by linarith
  have u0: "0 \<le> u" and u1: "u \<le> 1" by (simp_all add: u_def)
  have s1: "\<bar>b' - a'\<bar> * u \<le> (\<bar>a'\<bar> + \<bar>b'\<bar>) * u"
    using ba u0 by (rule mult_right_mono)
  have "\<bar>a' + d\<bar> \<le> \<bar>b'\<bar> + \<bar>b' - a'\<bar> * u" using e1 by linarith
  also have "\<dots> \<le> \<bar>b'\<bar> + (\<bar>a'\<bar> + \<bar>b'\<bar>) * u" using s1 by simp
  also have "\<dots> \<le> \<bar>b'\<bar> + (\<bar>a'\<bar> + \<bar>b'\<bar>) * 1"
    using u1 by (intro add_left_mono mult_left_mono) simp_all
  finally have "\<bar>a' + d\<bar> \<le> 2 * (\<bar>a'\<bar> + \<bar>b'\<bar>)" by simp
  then have "\<bar>a' + d\<bar> * u \<le> 2 * (\<bar>a'\<bar> + \<bar>b'\<bar>) * u"
    using u0 by (rule mult_right_mono)
  then have "\<bar>v - (a' + d)\<bar> \<le> 2 * (\<bar>a'\<bar> + \<bar>b'\<bar>) * u" using e2 by linarith
  moreover have "\<bar>(a' + d) - b'\<bar> \<le> (\<bar>a'\<bar> + \<bar>b'\<bar>) * u" using e1 s1 by linarith
  ultimately have "\<bar>v - b'\<bar> \<le> 3 * ((\<bar>a'\<bar> + \<bar>b'\<bar>) * u)" by linarith
  also have "\<dots> \<le> (\<bar>a'\<bar> + \<bar>b'\<bar>) / 2 ^ 51" by (simp add: u_def)
  finally have "\<bar>v - b'\<bar> \<le> (\<bar>a'\<bar> + \<bar>b'\<bar>) / 2 ^ 51" .
  then show ?thesis unfolding a b l by (simp only: within_rounding.simps)
qed

section \<open>Continuity at a layout change, in double arithmetic\<close>

lemma double_anchors_next_tick_fl:
  "list_all double_anchors (points s) \<Longrightarrow> list_all double_anchors (points (next_tick_fl N order s))"
  by (simp add: next_tick_fl_eq Let_def list_all_iff double_anchors_blend_point_fl)

lemma double_anchors_frames_fl:
  "list_all double_anchors (points s) \<Longrightarrow> list_all double_anchors (points (frames_fl N order ts s))"
  by (induction ts arbitrary: s) (simp_all add: double_anchors_next_tick_fl)

lemma near_anchor_blend_point_fl:
  assumes "double_anchors pt"
  shows "near_anchor cur nxt (blend_point_fl cur nxt (Fin 1) pt)"
proof -
  have c: "is_double (fst (anchor cur pt))" "is_double (snd (anchor cur pt))"
    and n: "is_double (fst (anchor nxt pt))" "is_double (snd (anchor nxt pt))"
    using anchor_double [OF assms] by simp_all
  have "x (blend_point_fl cur nxt (Fin 1) pt)
        = lerp_num_fl (fst (anchor cur pt)) (fst (anchor nxt pt)) (Fin 1)"
    and "y (blend_point_fl cur nxt (Fin 1) pt)
        = lerp_num_fl (snd (anchor cur pt)) (snd (anchor nxt pt)) (Fin 1)"
    by (simp_all add: blend_point_fl_def)
  then show ?thesis
    using lerp_num_fl_1 [OF c(1) n(1)] lerp_num_fl_1 [OF c(2) n(2)]
    by (simp add: near_anchor_def)
qed

lemma live_blend_point_fl_0:
  assumes "double_anchors pt"
  shows "live (blend_point_fl cur nxt (Fin 0) pt) = anchor cur pt"
  using anchor_double [OF assms, of cur] anchor_double [OF assms, of nxt]
  by (simp add: live_def blend_point_fl_def lerp_num_fl_0)

text \<open>
  Claim C9, as the code has it.  Take a point count of at least 2, a window of finite
  size, a step budget \<open>N \<ge> 5\<close> (the code's is 120) and a non-empty cycle.  On every tick
  at which the step index wraps to 0, the state before it has the step index \<open>N - 1\<close> and
  the blend 1; the tick advances the cycle position and its blend is 0.  The tick puts
  every point exactly on its anchor \<open>b\<close> in the new current layout.  Before the tick the
  point was at \<open>a + (b - a) * 1\<close> computed in doubles, \<open>a\<close> being its anchor in the old
  current layout: within \<open>(|a| + |b|) / 2 ^ 51\<close> of \<open>b\<close> in each coordinate.  So no point
  moves by more than this rounding error when the pair of layouts changes.
\<close>

theorem no_jump_beyond_rounding:
  assumes "2 \<le> count" "5 \<le> N" "order \<noteq> []"
    and "s1 = frames_fl N order ts
                (next_tick_fl N order
                  (initial_fl cm \<lparr>innerWidth = Fin w, innerHeight = Fin h\<rparr> count))"
    and "step (next_tick_fl N order s1) = 0"
  shows "step s1 = N - 1 \<and> pct_fl N (step s1) = Fin 1
       \<and> layout (next_tick_fl N order s1) = (layout s1 + 1) mod length order
       \<and> pct_fl N (step (next_tick_fl N order s1)) = Fin 0
       \<and> list_all (near_anchor (order ! layout s1) (order ! layout (next_tick_fl N order s1)))
           (points s1)
       \<and> map live (points (next_tick_fl N order s1))
           = map (anchor (order ! layout (next_tick_fl N order s1))) (points s1)"
proof -
  define s0 where "s0 = initial_fl cm \<lparr>innerWidth = Fin w, innerHeight = Fin h\<rparr> count"
  define L where "L = length order"
  define lay where "lay = layout s1"
  define s2 where "s2 = next_tick_fl N order s1"
  have N: "0 < N" using assms(2) by simp
  have Lpos: "0 < L" using assms(3) by (simp add: L_def)
  have s1: "s1 = frames_fl N order ts (next_tick_fl N order s0)"
    by (simp add: assms(4) s0_def)
  have c0: "step s0 < N" "layout s0 < length order"
    using N Lpos by (simp_all add: s0_def initial_fl_def L_def)
  have dbl0: "list_all double_anchors (points s0)"
    unfolding s0_def by (rule double_anchors_initial_fl [OF assms(1)])
  have st1: "step s1 < N"
    using points_after_ticks_fl(1) [OF c0, of ts] N by (simp add: s1)
  have p1: "points s1 = map (blend_point_fl (order ! lay) (order ! ((lay + 1) mod L))
              (pct_fl N (step s1))) (points s0)"
    using points_after_ticks_fl [OF c0, of ts] by (simp add: s1 lay_def L_def)
  have wrap: "(step s1 + 1) mod N = 0"
    using assms(5) by (simp add: step_next_tick_fl)
  have last: "step s1 = N - 1"
  proof (rule ccontr)
    assume "step s1 \<noteq> N - 1"
    then have "step s1 + 1 < N" using st1 by simp
    then have "(step s1 + 1) mod N = step s1 + 1" by simp
    then show False using wrap by simp
  qed
  have b1: "pct_fl N (step s1) = Fin 1"
    by (simp only: last) (rule pct_fl_last [OF assms(2)])
  have st2: "step s2 = 0" using assms(5) by (simp add: s2_def)
  have lay2: "layout s2 = (lay + 1) mod L"
    using wrap by (simp add: s2_def layout_next_tick_fl lay_def L_def)
  have b2: "pct_fl N (step s2) = Fin 0"
    by (simp only: st2) (rule pct_fl_0 [OF N])
  have p1': "points s1 = map (blend_point_fl (order ! lay) (order ! layout s2) (Fin 1)) (points s0)"
    using p1 by (simp only: b1 lay2)
  have near: "list_all (near_anchor (order ! lay) (order ! layout s2)) (points s1)"
    using dbl0 by (simp add: p1' list_all_iff near_anchor_blend_point_fl)
  have dbl1: "list_all double_anchors (points s1)"
    unfolding s1 by (intro double_anchors_frames_fl double_anchors_next_tick_fl dbl0)
  have "points s2 = map (blend_point_fl (order ! layout s2) (order ! ((layout s2 + 1) mod L))
          (pct_fl N (step s2))) (points s1)"
    unfolding s2_def L_def by (rule points_next_tick_fl)
  then have "points s2 = map (blend_point_fl (order ! layout s2) (order ! ((layout s2 + 1) mod L))
          (Fin 0)) (points s1)"
    by (simp only: b2)
  then have lv: "map live (points s2) = map (anchor (order ! layout s2)) (points s1)"
    using dbl1 by (simp add: list_all_iff live_blend_point_fl_0)
  show ?thesis
    using last b1 lay2 b2 near lv by (simp add: s2_def lay_def L_def)
qed

theorem no_jump_beyond_rounding_witness:
  "step (frames_fl numSteps LAYOUT_ORDER (replicate 118 0)
           (Visualization_fl (\<lambda>t. []) \<lparr>innerWidth = Fin 2, innerHeight = Fin 2\<rparr> 2)) = 119
   \<and> layout (next_tick_fl numSteps LAYOUT_ORDER
        (frames_fl numSteps LAYOUT_ORDER (replicate 118 0)
           (Visualization_fl (\<lambda>t. []) \<lparr>innerWidth = Fin 2, innerHeight = Fin 2\<rparr> 2))) = 1
   \<and> list_all (near_anchor PHYLLOTAXIS SPIRAL)
        (points (frames_fl numSteps LAYOUT_ORDER (replicate 118 0)
           (Visualization_fl (\<lambda>t. []) \<lparr>innerWidth = Fin 2, innerHeight = Fin 2\<rparr> 2)))
   \<and> map live (points (next_tick_fl numSteps LAYOUT_ORDER
        (frames_fl numSteps LAYOUT_ORDER (replicate 118 0)
           (Visualization_fl (\<lambda>t. []) \<lparr>innerWidth = Fin 2, innerHeight = Fin 2\<rparr> 2))))
     = map (anchor SPIRAL) (points
        (frames_fl numSteps LAYOUT_ORDER (replicate 118 0)
           (Visualization_fl (\<lambda>t. []) \<lparr>innerWidth = Fin 2, innerHeight = Fin 2\<rparr> 2)))"
proof -
  define s0 where "s0 = initial_fl (\<lambda>t. []) \<lparr>innerWidth = Fin 2, innerHeight = Fin 2\<rparr> 2"
  define s1 where "s1 = frames_fl numSteps LAYOUT_ORDER (replicate 118 0)
                          (next_tick_fl numSteps LAYOUT_ORDER s0)"
  have h1: "(2::nat) \<le> 2" by simp
  have h2: "5 \<le> numSteps" by (simp add: numSteps_def)
  have h3: "LAYOUT_ORDER \<noteq> []" by (simp add: LAYOUT_ORDER_def)
  have h4: "s1 = frames_fl numSteps LAYOUT_ORDER (replicate 118 0)
       (next_tick_fl numSteps LAYOUT_ORDER
          (initial_fl (\<lambda>t. []) \<lparr>innerWidth = Fin 2, innerHeight = Fin 2\<rparr> 2))"
    by (simp add: s1_def s0_def)
  have c0: "step s0 < numSteps" "layout s0 < length LAYOUT_ORDER"
    by (simp_all add: s0_def initial_fl_def numSteps_def LAYOUT_ORDER_def)
  have st: "step s1 = 119"
    using points_after_ticks_fl(1) [OF c0, of "replicate 118 0"]
    by (simp add: s1_def s0_def initial_fl_def numSteps_def)
  have lay: "layout s1 = 0"
    using points_after_ticks_fl(2) [OF c0, of "replicate 118 0"]
    by (simp add: s1_def s0_def initial_fl_def numSteps_def)
  have h5: "step (next_tick_fl numSteps LAYOUT_ORDER s1) = 0"
    by (simp add: step_next_tick_fl st numSteps_def)
  note th = no_jump_beyond_rounding [OF h1 h2 h3 h4 h5]
  have a: "layout (next_tick_fl numSteps LAYOUT_ORDER s1) = 1"
    using th [THEN conjunct2, THEN conjunct2, THEN conjunct1]
    by (simp add: lay LAYOUT_ORDER_def)
  have o0: "LAYOUT_ORDER ! 0 = PHYLLOTAXIS" and o1: "LAYOUT_ORDER ! 1 = SPIRAL"
    by (simp_all add: LAYOUT_ORDER_def)
  have b: "list_all (near_anchor PHYLLOTAXIS SPIRAL) (points s1)"
    using th [THEN conjunct2, THEN conjunct2, THEN conjunct2, THEN conjunct2, THEN conjunct1]
    by (simp only: lay a o0 o1)
  have c: "map live (points (next_tick_fl numSteps LAYOUT_ORDER s1)) = map (anchor SPIRAL) (points s1)"
    using th [THEN conjunct2, THEN conjunct2, THEN conjunct2, THEN conjunct2, THEN conjunct2]
    by (simp only: a o1)
  show ?thesis
    using st a b c by (simp only: Visualization_fl_def s1_def s0_def)
qed

lemma rd_4: "rd 4 = 4"
  by (subst rd_down [of _ 50]) (simp_all add: round_even_def)

lemma rd_q4: "rd (3602879701896397 / 2 ^ 51 / 4) = 3602879701896397 / 2 ^ 53"
  by (subst rd_down [of _ 54]) (simp_all add: round_even_def)

lemma rd_q4_3: "rd (3602879701896397 / 2 ^ 53 * 3) = 1351079888211149 / 2 ^ 50"
  by (subst rd_down [of _ 52]) (simp_all add: round_even_def)

lemma rd_g0: "rd (- (7205759403792794 / 2 ^ 53) + 1351079888211149 / 2 ^ 50) = 1801439850948199 / 2 ^ 52"
  by (subst rd_down [of _ 54]) (simp_all add: round_even_def)

lemma rd_g0_1: "rd (1801439850948199 / 2 ^ 52 * 1) = 1801439850948199 / 2 ^ 52"
  by (subst rd_down [of _ 54]) (simp_all add: round_even_def)

lemma rd_gx: "rd (1801439850948199 / 2 ^ 52 + 1) = 6305039478318695 / 2 ^ 52"
  by (subst rd_down [of _ 52]) (simp_all add: round_even_def)

lemma rd_15: "rd (16 - 1) = 15"
  by (subst rd_down [of _ 49]) (simp_all add: round_even_def)

lemma rd_xs: "rd (2 / 15) = 4803839602528529 / 2 ^ 55"
  by (subst rd_down [of _ 55]) (simp_all add: round_even_def)

lemma rd_3_xs: "rd (3 * (4803839602528529 / 2 ^ 55)) = 3602879701896397 / 2 ^ 53"
  by (subst rd_down [of _ 54]) (simp_all add: round_even_def)

lemma rd_xw: "rd (- 1 + 3602879701896397 / 2 ^ 53) = - (5404319552844595 / 2 ^ 53)"
  by (subst rd_down [of _ 53]) (simp_all add: round_even_def)

lemma rd_xw_1: "rd (- (5404319552844595 / 2 ^ 53) * 1) = - (5404319552844595 / 2 ^ 53)"
  by (subst rd_down [of _ 53]) (simp_all add: round_even_def)

lemma rd_wx: "rd (- (5404319552844595 / 2 ^ 53) + 1) = 3602879701896397 / 2 ^ 53"
  by (subst rd_down [of _ 54]) (simp_all add: round_even_def)

lemma rd_wx_gx: "rd (3602879701896397 / 2 ^ 53 - 6305039478318695 / 2 ^ 52) = - 1"
  by (subst rd_down [of _ 52]) (simp_all add: round_even_def)

lemma rd_m1_1: "rd (- 1 * 1) = - 1"
  by (subst rd_down [of _ 52]) (simp_all add: round_even_def)

lemma rd_lerp: "rd (6305039478318695 / 2 ^ 52 + - 1) = 1801439850948199 / 2 ^ 52"
  by (subst rd_down [of _ 54]) (simp_all add: round_even_def)

lemma sqrt_16: "sqrt 16 = 4"
proof -
  have "sqrt (4\<^sup>2) = 4" by (simp only: real_sqrt_abs abs_numeral)
  then show ?thesis by simp
qed

lemma rowLength_fl_16: "Math_round (fl_sqrt (Fin 16)) = Fin 4"
  by (simp add: sqrt_16 rd_4)

text \<open>The first coordinate of a projected vector in a window of 2 by 2 pixels.\<close>

lemma project_fl_first:
  "elem (project_fl \<lparr>innerWidth = Fin 2, innerHeight = Fin 2\<rparr> [a, b]) 0
   = fl_add (fl_mul a (Fin 1)) (Fin 1)"
  by (simp add: project_fl_def translate_fl_def scale_fl_def elem_def rd_1 Let_def upt_rec [of 0]
      upt_rec [of 1])

lemma grid_anchor_16_3:
  "elem (project_fl \<lparr>innerWidth = Fin 2, innerHeight = Fin 2\<rparr> (genGrid_fl (Fin 16) (Fin 3))) 0
   = Fin (6305039478318695 / 2 ^ 52)"
proof -
  have m: "Fin 3 mod Fin 4 = Fin 3"
    by (simp add: fin_mod trunc_def)
  have c8: "fl 0.8 = Fin (7205759403792794 / 2 ^ 53)"
    unfolding fl_def by (simp only: rd_08)
  have c16: "fl 1.6 = Fin (3602879701896397 / 2 ^ 51)"
    unfolding fl_def by (simp only: rd_16)
  have n4: "(4::real) \<noteq> 0" by simp
  show ?thesis
    by (simp only: genGrid_fl_def Let_def rowLength_fl_16 m c8 c16 project_fl_first neg_fin
        fl_fin(4) [OF n4] fl_fin(1,3) rd_q4 rd_q4_3 rd_g0 rd_g0_1 rd_gx)
qed

lemma wave_anchor_16_3:
  "elem (project_fl \<lparr>innerWidth = Fin 2, innerHeight = Fin 2\<rparr> (genWave_fl (Fin 16) (Fin 3))) 0
   = Fin (3602879701896397 / 2 ^ 53)"
proof -
  have n15: "(15::real) \<noteq> 0" by simp
  show ?thesis
    by (simp only: genWave_fl_def Let_def project_fl_first neg_fin fl_fin(2) rd_15
        fl_fin(4) [OF n15] fl_fin(1,3) rd_xs rd_3_xs rd_xw rd_xw_1 rd_wx)
qed

lemma lerp_16_3:
  "lerp_num_fl (Fin (6305039478318695 / 2 ^ 52)) (Fin (3602879701896397 / 2 ^ 53)) (Fin 1)
   = Fin (1801439850948199 / 2 ^ 52)"
  by (simp only: lerp_num_fl_def fl_fin(1,2,3) rd_wx_gx rd_m1_1 rd_lerp)


text \<open>
  The claim as the specification states it has the two live positions equal.  With 16
  points in a window of 2 by 2 pixels, point 3 has the grid anchor \<open>x = 1.4000000000000001\<close>
  and the wave anchor \<open>x = 0.4\<close>.  After tick 479, the last one of the transition from the
  grid to the wave, its \<open>x\<close> is \<open>1.4000000000000001 + (0.4 - 1.4000000000000001) * 1\<close>, in
  doubles \<open>1801439850948199 / 2 ^ 52 = 0.40000000000000013\<close>.  Tick 480 wraps the step
  index to 0 and sets \<open>x\<close> to the wave anchor \<open>3602879701896397 / 2 ^ 53\<close>, the double
  of \<open>0.4\<close>.
\<close>

theorem jump_by_rounding:
  "step (next_tick_fl numSteps LAYOUT_ORDER
      (frames_fl numSteps LAYOUT_ORDER (replicate 478 0)
         (Visualization_fl (\<lambda>t. []) \<lparr>innerWidth = Fin 2, innerHeight = Fin 2\<rparr> 16))) = 0
   \<and> x (points
      (frames_fl numSteps LAYOUT_ORDER (replicate 478 0)
         (Visualization_fl (\<lambda>t. []) \<lparr>innerWidth = Fin 2, innerHeight = Fin 2\<rparr> 16)) ! 3)
     = Fin (1801439850948199 / 2 ^ 52)
   \<and> x (points (next_tick_fl numSteps LAYOUT_ORDER
      (frames_fl numSteps LAYOUT_ORDER (replicate 478 0)
         (Visualization_fl (\<lambda>t. []) \<lparr>innerWidth = Fin 2, innerHeight = Fin 2\<rparr> 16))) ! 3)
     = Fin (3602879701896397 / 2 ^ 53)
   \<and> (1801439850948199 / 2 ^ 52 :: real) \<noteq> 3602879701896397 / 2 ^ 53"
proof -
  let ?W = "\<lparr>innerWidth = Fin 2, innerHeight = Fin 2\<rparr>"
  define p3 where "p3 = makePoint_fl (\<lambda>t. []) ?W 16 3"
  define s0 where "s0 = initial_fl (\<lambda>t. []) ?W 16"
  define s1 where "s1 = frames_fl numSteps LAYOUT_ORDER (replicate 478 0)
                          (next_tick_fl numSteps LAYOUT_ORDER s0)"
  have len0: "length (points s0) = 16"
    by (simp add: s0_def initial_fl_def makePoints_fl_eq)
  have pt0: "points s0 ! 3 = p3"
    by (simp add: s0_def p3_def initial_fl_def makePoints_fl_eq)
  have dbl: "double_anchors p3"
    unfolding p3_def by (rule makePoint_fl_double) simp
  have "gx p3 = elem (project_fl ?W (genGrid_fl (Fin 16) (Fin 3))) 0"
    by (simp add: p3_def makePoint_fl_def findAnchors_fl_def Let_def)
  then have g: "gx p3 = Fin (6305039478318695 / 2 ^ 52)"
    by (simp only: grid_anchor_16_3)
  have "wx p3 = elem (project_fl ?W (genWave_fl (Fin 16) (Fin 3))) 0"
    by (simp add: p3_def makePoint_fl_def findAnchors_fl_def Let_def)
  then have w: "wx p3 = Fin (3602879701896397 / 2 ^ 53)"
    by (simp only: wave_anchor_16_3)
  have c0: "step s0 < numSteps" "layout s0 < length LAYOUT_ORDER"
    by (simp_all add: s0_def initial_fl_def numSteps_def LAYOUT_ORDER_def)
  have st: "step s1 = 119"
    using points_after_ticks_fl(1) [OF c0, of "replicate 478 0"]
    by (simp add: s1_def s0_def initial_fl_def numSteps_def)
  have lay: "layout s1 = 3"
    using points_after_ticks_fl(2) [OF c0, of "replicate 478 0"]
    by (simp add: s1_def s0_def initial_fl_def numSteps_def LAYOUT_ORDER_def)
  have b1: "pct_fl numSteps 119 = Fin 1"
    using pct_fl_last [of numSteps] by (simp add: numSteps_def)
  have b0: "pct_fl numSteps 0 = Fin 0"
    by (rule pct_fl_0) (simp add: numSteps_def)
  have "points s1 = map (blend_point_fl (LAYOUT_ORDER ! 3)
                       (LAYOUT_ORDER ! ((3 + 1) mod length LAYOUT_ORDER))
                       (pct_fl numSteps 119)) (points s0)"
    using points_after_ticks_fl(3) [OF c0, of "replicate 478 0"]
      points_after_ticks_fl(1) [OF c0, of "replicate 478 0"]
      points_after_ticks_fl(2) [OF c0, of "replicate 478 0"]
    unfolding s1_def [symmetric] by (simp only: st lay)
  then have p1: "points s1 = map (blend_point_fl GRID WAVE (Fin 1)) (points s0)"
    by (simp add: LAYOUT_ORDER_def b1)
  have q1: "points s1 ! 3 = blend_point_fl GRID WAVE (Fin 1) p3"
    using len0 pt0 by (simp add: p1)
  have st2: "step (next_tick_fl numSteps LAYOUT_ORDER s1) = 0"
    by (simp add: step_next_tick_fl st numSteps_def)
  have lay2: "layout (next_tick_fl numSteps LAYOUT_ORDER s1) = 4"
    by (simp add: layout_next_tick_fl st lay numSteps_def LAYOUT_ORDER_def)
  have "points (next_tick_fl numSteps LAYOUT_ORDER s1)
        = map (blend_point_fl (LAYOUT_ORDER ! 4) (LAYOUT_ORDER ! ((4 + 1) mod length LAYOUT_ORDER))
            (pct_fl numSteps 0)) (points s1)"
    using points_next_tick_fl [of numSteps LAYOUT_ORDER s1] by (simp only: st2 lay2)
  then have p2: "points (next_tick_fl numSteps LAYOUT_ORDER s1)
                 = map (blend_point_fl WAVE PHYLLOTAXIS (Fin 0)) (points s1)"
    by (simp add: LAYOUT_ORDER_def b0)
  have q2: "points (next_tick_fl numSteps LAYOUT_ORDER s1) ! 3
            = blend_point_fl WAVE PHYLLOTAXIS (Fin 0) (blend_point_fl GRID WAVE (Fin 1) p3)"
    using len0 q1 by (simp add: p2 p1)
  have x1: "x (points s1 ! 3) = Fin (1801439850948199 / 2 ^ 52)"
    by (simp only: q1 blend_point_fl_def anchor.simps fst_conv snd_conv g w lerp_16_3)
       simp
  have dw: "is_double (wx p3)" and dp: "is_double (px p3)"
    using dbl by (simp_all add: double_anchors_def)
  have "x (points (next_tick_fl numSteps LAYOUT_ORDER s1) ! 3)
        = lerp_num_fl (wx p3) (px p3) (Fin 0)"
    by (simp add: q2 blend_point_fl_def)
  also have "\<dots> = wx p3" by (rule lerp_num_fl_0 [OF dw dp])
  finally have x2: "x (points (next_tick_fl numSteps LAYOUT_ORDER s1) ! 3)
                    = Fin (3602879701896397 / 2 ^ 53)"
    by (simp only: w)
  have ne: "(1801439850948199 / 2 ^ 52 :: real) \<noteq> 3602879701896397 / 2 ^ 53" by simp
  have e: "frames_fl numSteps LAYOUT_ORDER (replicate 478 0)
             (Visualization_fl (\<lambda>t. []) ?W 16) = s1"
    by (simp only: Visualization_fl_def s1_def s0_def)
  show ?thesis
    unfolding e using st2 x1 x2 ne by blast
qed

end
